theory Spec2Isabelle
  imports Complex_Main
begin

section \<open>Floating-point values and NumPy dtypes\<close>

text \<open>
  The notebook \<^verbatim>\<open>GCorrectionCode.ipynb\<close> defines one function, \<^verbatim>\<open>correct_gband\<close>,
  written with NumPy. Its values are IEEE floating-point numbers: a NaN, an infinity or
  a finite number, and finite numbers are modelled as reals.

  \<^item> The dtype \<^verbatim>\<open>float64\<close> (also the Python \<^verbatim>\<open>float\<close>) is the reference precision: its
    arithmetic is idealised as exact real arithmetic.
  \<^item> A number of dtype \<^verbatim>\<open>float32\<close> has 24 significant bits, and an operation whose
    result has dtype \<^verbatim>\<open>float32\<close> rounds the exact result to the nearest such number,
    ties to even. IEEE prescribes this for \<open>+\<close>, \<open>-\<close>, \<open>*\<close> and conversions; for
    \<^verbatim>\<open>np.power\<close> and \<^verbatim>\<open>np.log10\<close> it is assumed.
  \<^item> The exponent range is unbounded: overflow, underflow and signed zeros are not
    modelled.
\<close>

datatype fl = NaN | NInf | Fin real | PInf

datatype dtype = Float32 | Float64

text \<open>Rounding to the nearest integer, ties to even (the IEEE default).\<close>

definition round_even :: "real \<Rightarrow> int" where
  "round_even y =
     (let f = \<lfloor>y\<rfloor> in
      if y - of_int f < 1 / 2 then f
      else if 1 / 2 < y - of_int f then f + 1
      else if even f then f else f + 1)"

text \<open>Rounding a real to the nearest binary32 number (24 significant bits).\<close>

definition rnd32 :: "real \<Rightarrow> real" where
  "rnd32 x =
     (if x = 0 then 0
      else (let e = \<lfloor>log 2 \<bar>x\<bar>\<rfloor>
            in of_int (round_even (x * 2 powr (23 - of_int e))) * 2 powr (of_int e - 23)))"

text \<open>Rounding to a dtype, and storing a value in an array of that dtype.\<close>

fun rnd :: "dtype \<Rightarrow> real \<Rightarrow> real" where
  "rnd Float32 x = rnd32 x"
| "rnd Float64 x = x"

fun cast :: "dtype \<Rightarrow> fl \<Rightarrow> fl" where
  "cast d (Fin x) = Fin (rnd d x)"
| "cast d v = v"

text \<open>NumPy's result dtype of a binary operation on two float arrays.\<close>

fun promote :: "dtype \<Rightarrow> dtype \<Rightarrow> dtype" where
  "promote Float32 Float32 = Float32"
| "promote d1 d2 = Float64"

definition representable :: "dtype \<Rightarrow> fl \<Rightarrow> bool" where
  "representable d v = (cast d v = v)"

subsection \<open>Exact operations on the extended values\<close>

fun isnan :: "fl \<Rightarrow> bool" where
  "isnan NaN = True"
| "isnan v = False"

fun eneg :: "fl \<Rightarrow> fl" where
  "eneg NaN = NaN"
| "eneg NInf = PInf"
| "eneg PInf = NInf"
| "eneg (Fin a) = Fin (- a)"

fun eadd :: "fl \<Rightarrow> fl \<Rightarrow> fl" where
  "eadd (Fin a) (Fin b) = Fin (a + b)"
| "eadd NaN v = NaN"
| "eadd v NaN = NaN"
| "eadd PInf NInf = NaN"
| "eadd NInf PInf = NaN"
| "eadd PInf v = PInf"
| "eadd v PInf = PInf"
| "eadd NInf v = NInf"
| "eadd v NInf = NInf"

definition esub :: "fl \<Rightarrow> fl \<Rightarrow> fl" where
  "esub a b = eadd a (eneg b)"

text \<open>Multiplication of an infinity by a finite number: the sign rule, and NaN for zero.\<close>

fun inf_times :: "bool \<Rightarrow> real \<Rightarrow> fl" where
  "inf_times pos a =
     (if a = 0 then NaN else if (0 < a) = pos then PInf else NInf)"

fun emul :: "fl \<Rightarrow> fl \<Rightarrow> fl" where
  "emul (Fin a) (Fin b) = Fin (a * b)"
| "emul NaN v = NaN"
| "emul v NaN = NaN"
| "emul PInf (Fin a) = inf_times True a"
| "emul (Fin a) PInf = inf_times True a"
| "emul NInf (Fin a) = inf_times False a"
| "emul (Fin a) NInf = inf_times False a"
| "emul PInf PInf = PInf"
| "emul NInf NInf = PInf"
| "emul PInf NInf = NInf"
| "emul NInf PInf = NInf"

text \<open>\<^verbatim>\<open>np.power(x, n)\<close> for a positive integer exponent.\<close>

fun epow :: "fl \<Rightarrow> nat \<Rightarrow> fl" where
  "epow (Fin a) n = Fin (a ^ n)"
| "epow NaN n = NaN"
| "epow PInf n = PInf"
| "epow NInf n = (if even n then PInf else NInf)"

text \<open>\<^verbatim>\<open>np.log10\<close>: the logarithm to base 10; \<open>-inf\<close> at zero, NaN below zero.\<close>

fun elog10 :: "fl \<Rightarrow> fl" where
  "elog10 (Fin a) = (if 0 < a then Fin (log 10 a) else if a = 0 then NInf else NaN)"
| "elog10 NaN = NaN"
| "elog10 PInf = PInf"
| "elog10 NInf = NaN"

text \<open>IEEE comparisons: every comparison with a NaN is false.\<close>

fun fle :: "fl \<Rightarrow> fl \<Rightarrow> bool" where
  "fle (Fin a) (Fin b) = (a \<le> b)"
| "fle NaN v = False"
| "fle v NaN = False"
| "fle NInf v = True"
| "fle v PInf = True"
| "fle v w = False"

fun flt :: "fl \<Rightarrow> fl \<Rightarrow> bool" where
  "flt (Fin a) (Fin b) = (a < b)"
| "flt NaN v = False"
| "flt v NaN = False"
| "flt PInf v = False"
| "flt v NInf = False"
| "flt v w = True"

definition fgt :: "fl \<Rightarrow> fl \<Rightarrow> bool" where
  "fgt a b = flt b a"

text \<open>\<^verbatim>\<open>np.maximum\<close> and \<^verbatim>\<open>np.minimum\<close> propagate NaN.\<close>

definition fmaximum :: "fl \<Rightarrow> fl \<Rightarrow> fl" where
  "fmaximum a b = (if isnan a then a else if isnan b then b else if fle a b then b else a)"

definition fminimum :: "fl \<Rightarrow> fl \<Rightarrow> fl" where
  "fminimum a b = (if isnan a then a else if isnan b then b else if fle a b then a else b)"

text \<open>\<^verbatim>\<open>np.clip(x, lo, hi)\<close> is \<^verbatim>\<open>minimum(maximum(x, lo), hi)\<close>.\<close>

definition clip :: "fl \<Rightarrow> real \<Rightarrow> real \<Rightarrow> fl" where
  "clip x lo hi = fminimum (fmaximum x (Fin lo)) (Fin hi)"

subsection \<open>Operations in a dtype\<close>

text \<open>A Python float constant that meets an array of dtype \<open>d\<close> is converted to \<open>d\<close>.\<close>

definition const :: "dtype \<Rightarrow> real \<Rightarrow> fl" where
  "const d k = cast d (Fin k)"

definition fadd :: "dtype \<Rightarrow> fl \<Rightarrow> fl \<Rightarrow> fl" where
  "fadd d a b = cast d (eadd a b)"

definition fsub :: "dtype \<Rightarrow> fl \<Rightarrow> fl \<Rightarrow> fl" where
  "fsub d a b = cast d (esub a b)"

definition fmul :: "dtype \<Rightarrow> fl \<Rightarrow> fl \<Rightarrow> fl" where
  "fmul d a b = cast d (emul a b)"

definition fpow :: "dtype \<Rightarrow> fl \<Rightarrow> nat \<Rightarrow> fl" where
  "fpow d a n = cast d (epow a n)"

definition flog10 :: "dtype \<Rightarrow> fl \<Rightarrow> fl" where
  "flog10 d a = cast d (elog10 a)"

section \<open>Arrays and arguments\<close>

text \<open>
  An \<^verbatim>\<open>ndarray\<close> of floats has a dtype, a shape and its elements in row-major order;
  the docstring of \<^verbatim>\<open>correct_gband\<close> asks for floats or arrays of floats. The
  astrometric solution codes are integers: a Python integer, which is unbounded, or an
  array of dtype \<^verbatim>\<open>int64\<close>. A zero-dimensional array has the shape \<open>()\<close> and one
  element, like a scalar, but \<^verbatim>\<open>np.isscalar\<close> is false for it.
\<close>

record ndarray =
  dtype :: dtype
  shape :: "nat list"
  data :: "fl list"

record intarray =
  ishape :: "nat list"
  idata :: "int list"

text \<open>An argument of \<^verbatim>\<open>correct_gband\<close> is a scalar or an array.\<close>

datatype farg = FScalar fl | FArray ndarray

datatype iarg = IScalar int | IArray intarray

text \<open>
  The errors \<^verbatim>\<open>correct_gband\<close> can raise: its own \<^verbatim>\<open>ValueError\<close> for a shape mismatch,
  and the \<^verbatim>\<open>OverflowError\<close> of \<^verbatim>\<open>np.int64\<close> for a Python integer outside the range
  of \<^verbatim>\<open>int64\<close>.
\<close>

datatype error = ValueError | OverflowError

definition in_int64 :: "int \<Rightarrow> bool" where
  "in_int64 k = (- (2 ^ 63) \<le> k \<and> k < 2 ^ 63)"

text \<open>
  The invariant of an array: it has as many elements as its shape says, and each of them
  is a number of its dtype.
\<close>

definition wf_ndarray :: "ndarray \<Rightarrow> bool" where
  "wf_ndarray a =
     (length (data a) = prod_list (shape a) \<and> list_all (representable (dtype a)) (data a))"

definition wf_intarray :: "intarray \<Rightarrow> bool" where
  "wf_intarray a =
     (length (idata a) = prod_list (ishape a) \<and> list_all in_int64 (idata a))"

fun wf_farg :: "farg \<Rightarrow> bool" where
  "wf_farg (FScalar v) = True"
| "wf_farg (FArray a) = wf_ndarray a"

fun wf_iarg :: "iarg \<Rightarrow> bool" where
  "wf_iarg (IScalar k) = True"
| "wf_iarg (IArray a) = wf_intarray a"

fun isscalar :: "farg \<Rightarrow> bool" where
  "isscalar (FScalar v) = True"
| "isscalar (FArray a) = False"

fun isscalar_int :: "iarg \<Rightarrow> bool" where
  "isscalar_int (IScalar k) = True"
| "isscalar_int (IArray a) = False"

text \<open>
  \<^verbatim>\<open>np.float64(x)\<close>: a scalar becomes a binary64 scalar, whose shape is \<open>()\<close>.
  \<^verbatim>\<open>np.float64\<close> is also a subclass of the Python \<^verbatim>\<open>float\<close>, whose constructor is tried
  first: \<^verbatim>\<open>float(x)\<close> succeeds for an array with exactly one element, of any number of
  dimensions, so such an array becomes a scalar too. Any other array becomes an array
  of dtype \<^verbatim>\<open>float64\<close> of the same shape. The conversion of the values is exact.
\<close>

fun np_float64 :: "farg \<Rightarrow> ndarray" where
  "np_float64 (FScalar v) = \<lparr>dtype = Float64, shape = [], data = [v]\<rparr>"
| "np_float64 (FArray a) =
     (if prod_list (shape a) = 1 then \<lparr>dtype = Float64, shape = [], data = data a\<rparr>
      else a\<lparr>dtype := Float64\<rparr>)"

text \<open>
  \<^verbatim>\<open>np.int64(x)\<close>: a Python integer in the range of \<^verbatim>\<open>int64\<close> becomes a scalar of
  shape \<open>()\<close>, one outside the range raises \<^verbatim>\<open>OverflowError\<close>. \<^verbatim>\<open>np.int64\<close> has no
  Python base class, so an integer array keeps its shape, also when it has one element.
\<close>

fun np_int64 :: "iarg \<Rightarrow> error + intarray" where
  "np_int64 (IScalar k) =
     (if in_int64 k then Inr \<lparr>ishape = [], idata = [k]\<rparr> else Inl OverflowError)"
| "np_int64 (IArray a) = Inr a"

text \<open>Without the conversion an argument is used as it is.\<close>

fun as_intarray :: "iarg \<Rightarrow> intarray" where
  "as_intarray (IScalar k) = \<lparr>ishape = [], idata = [k]\<rparr>"
| "as_intarray (IArray a) = a"

fun as_ndarray :: "farg \<Rightarrow> ndarray" where
  "as_ndarray (FScalar v) = \<lparr>dtype = Float64, shape = [], data = [v]\<rparr>"
| "as_ndarray (FArray a) = a"

subsection \<open>Element-wise operations and boolean masks\<close>

definition np_isnan :: "ndarray \<Rightarrow> bool list" where
  "np_isnan a = map isnan (data a)"

definition le_scalar :: "ndarray \<Rightarrow> real \<Rightarrow> bool list" where
  "le_scalar a k = map (\<lambda>x. fle x (Fin k)) (data a)"

definition gt_scalar :: "ndarray \<Rightarrow> real \<Rightarrow> bool list" where
  "gt_scalar a k = map (\<lambda>x. fgt x (Fin k)) (data a)"

definition ne_scalar :: "intarray \<Rightarrow> int \<Rightarrow> bool list" where
  "ne_scalar a k = map (\<lambda>x. x \<noteq> k) (idata a)"

definition logical_or :: "bool list \<Rightarrow> bool list \<Rightarrow> bool list" where
  "logical_or xs ys = map2 (\<or>) xs ys"

definition logical_and :: "bool list \<Rightarrow> bool list \<Rightarrow> bool list" where
  "logical_and xs ys = map2 (\<and>) xs ys"

definition logical_not :: "bool list \<Rightarrow> bool list" where
  "logical_not xs = map Not xs"

definition np_clip :: "ndarray \<Rightarrow> real \<Rightarrow> real \<Rightarrow> ndarray" where
  "np_clip a lo hi = a\<lparr>data := map (\<lambda>x. clip x lo hi) (data a)\<rparr>"

definition ones_like :: "ndarray \<Rightarrow> ndarray" where
  "ones_like a = a\<lparr>data := replicate (prod_list (shape a)) (Fin 1)\<rparr>"

text \<open>\<^verbatim>\<open>a[mask]\<close>: the elements of \<open>a\<close> where the mask holds, in order.\<close>

fun getitem :: "'a list \<Rightarrow> bool list \<Rightarrow> 'a list" where
  "getitem (x # xs) (m # ms) = (if m then x # getitem xs ms else getitem xs ms)"
| "getitem xs ms = []"

text \<open>
  \<^verbatim>\<open>a[mask] = values\<close>: the values are stored, in order, where the mask holds, converted
  to the dtype of \<open>a\<close>. The mask has the shape of \<open>a\<close> and there is one value for each
  selected element; the other equations are never reached by \<^verbatim>\<open>correct_gband\<close>.
\<close>

fun setitem :: "dtype \<Rightarrow> fl list \<Rightarrow> bool list \<Rightarrow> fl list \<Rightarrow> fl list" where
  "setitem d (x # xs) (True # ms) (v # vs) = cast d v # setitem d xs ms vs"
| "setitem d (x # xs) (False # ms) vs = x # setitem d xs ms vs"
| "setitem d xs ms vs = xs"

section \<open>The correction\<close>

text \<open>
  The two cubic polynomials in the clipped colour, evaluated in the dtype of the colour
  array, in Python's order of evaluation:
  \<^verbatim>\<open>((k0 - k1*c) + k2*np.power(c,2)) - k3*np.power(c,3)\<close>.
\<close>

definition cubic :: "dtype \<Rightarrow> real \<Rightarrow> real \<Rightarrow> real \<Rightarrow> real \<Rightarrow> fl \<Rightarrow> fl" where
  "cubic d k0 k1 k2 k3 c =
     fsub d
       (fadd d (fsub d (const d k0) (fmul d (const d k1) c))
               (fmul d (const d k2) (fpow d c 2)))
       (fmul d (const d k3) (fpow d c 3))"

definition faint_factor :: "dtype \<Rightarrow> fl \<Rightarrow> fl" where
  "faint_factor d c = cubic d 1.00525 0.02323 0.01740 0.00253 c"

definition bright_factor :: "dtype \<Rightarrow> fl \<Rightarrow> fl" where
  "bright_factor d c = cubic d 1.00876 0.02540 0.01747 0.00277 c"

definition do_not_correct :: "ndarray \<Rightarrow> intarray \<Rightarrow> ndarray \<Rightarrow> bool list" where
  "do_not_correct bp_rp aps mag =
     logical_or (logical_or (np_isnan bp_rp) (le_scalar mag 13)) (ne_scalar aps 95)"

definition bright_correct :: "ndarray \<Rightarrow> intarray \<Rightarrow> ndarray \<Rightarrow> bool list" where
  "bright_correct bp_rp aps mag =
     logical_and
       (logical_and (logical_not (do_not_correct bp_rp aps mag)) (gt_scalar mag 13))
       (le_scalar mag 16)"

definition faint_correct :: "ndarray \<Rightarrow> intarray \<Rightarrow> ndarray \<Rightarrow> bool list" where
  "faint_correct bp_rp aps mag =
     logical_and (logical_not (do_not_correct bp_rp aps mag)) (gt_scalar mag 16)"

definition bp_rp_c :: "ndarray \<Rightarrow> ndarray" where
  "bp_rp_c bp_rp = np_clip bp_rp 0.25 3.0"

definition correction_factor :: "ndarray \<Rightarrow> intarray \<Rightarrow> ndarray \<Rightarrow> ndarray" where
  "correction_factor bp_rp aps mag =
     (let c = bp_rp_c bp_rp;
          fc = faint_correct bp_rp aps mag;
          bc = bright_correct bp_rp aps mag;
          cf0 = ones_like mag;
          cf1 = cf0\<lparr>data := setitem (dtype cf0) (data cf0) fc
                                (map (faint_factor (dtype c)) (getitem (data c) fc))\<rparr>;
          cf2 = cf1\<lparr>data := setitem (dtype cf1) (data cf1) bc
                                (map (bright_factor (dtype c)) (getitem (data c) bc))\<rparr>
      in cf2)"

definition gmag_corrected :: "ndarray \<Rightarrow> ndarray \<Rightarrow> ndarray" where
  "gmag_corrected mag cf =
     mag\<lparr>data := map2 (\<lambda>m f. fsub (dtype mag) m
                                (fmul (dtype mag) (const (dtype mag) 2.5) (flog10 (dtype mag) f)))
                      (data mag) (data cf)\<rparr>"

definition gflux_corrected :: "ndarray \<Rightarrow> ndarray \<Rightarrow> ndarray" where
  "gflux_corrected flux cf =
     \<lparr>dtype = promote (dtype flux) (dtype cf), shape = shape flux,
      data = map2 (fmul (promote (dtype flux) (dtype cf))) (data flux) (data cf)\<rparr>"

text \<open>
  The first statement of \<^verbatim>\<open>correct_gband\<close>: when one of the four arguments is a scalar,
  all four are converted with \<^verbatim>\<open>np.float64\<close> and \<^verbatim>\<open>np.int64\<close>; the error of
  \<^verbatim>\<open>np.int64\<close> leaves the function.
\<close>

definition normalize ::
  "farg \<Rightarrow> iarg \<Rightarrow> farg \<Rightarrow> farg \<Rightarrow> error + (ndarray \<times> intarray \<times> ndarray \<times> ndarray)"
  where
  "normalize bp_rp aps mag flux =
     (if isscalar bp_rp \<or> isscalar_int aps \<or> isscalar mag \<or> isscalar flux
      then (case np_int64 aps of
              Inl e \<Rightarrow> Inl e
            | Inr aps' \<Rightarrow> Inr (np_float64 bp_rp, aps', np_float64 mag, np_float64 flux))
      else Inr (as_ndarray bp_rp, as_intarray aps, as_ndarray mag, as_ndarray flux))"

definition same_shape :: "ndarray \<Rightarrow> intarray \<Rightarrow> ndarray \<Rightarrow> ndarray \<Rightarrow> bool" where
  "same_shape bp_rp aps mag flux =
     (shape bp_rp = ishape aps \<and> ishape aps = shape mag \<and> shape mag = shape flux)"

definition correct_gband ::
  "farg \<Rightarrow> iarg \<Rightarrow> farg \<Rightarrow> farg \<Rightarrow> error + (ndarray \<times> ndarray)" where
  "correct_gband bp_rp0 aps0 mag0 flux0 =
     (case normalize bp_rp0 aps0 mag0 flux0 of
        Inl e \<Rightarrow> Inl e
      | Inr (bp_rp, aps, mag, flux) \<Rightarrow>
          if \<not> same_shape bp_rp aps mag flux then Inl ValueError
          else (let cf = correction_factor bp_rp aps mag
                in Inr (gmag_corrected mag cf, gflux_corrected flux cf)))"

text \<open>The shape of an argument as the shape check sees it.\<close>

fun arg_shape :: "farg \<Rightarrow> nat list" where
  "arg_shape (FScalar v) = []"
| "arg_shape (FArray a) = shape a"

fun iarg_shape :: "iarg \<Rightarrow> nat list" where
  "iarg_shape (IScalar k) = []"
| "iarg_shape (IArray a) = ishape a"

text \<open>
  Two conditions on the arguments: a float argument that is an array of one or more
  dimensions with exactly one element, and a solution code that \<^verbatim>\<open>np.int64\<close> accepts.
\<close>

fun one_element :: "farg \<Rightarrow> bool" where
  "one_element (FScalar v) = False"
| "one_element (FArray a) = (shape a \<noteq> [] \<and> prod_list (shape a) = 1)"

fun code_in_range :: "iarg \<Rightarrow> bool" where
  "code_in_range (IScalar k) = in_int64 k"
| "code_in_range (IArray a) = True"

text \<open>
  The two correction polynomials over the reals, in the words of the specification:
  faint regime \<open>factor = 1.00525 - 0.02323*c + 0.01740*c^2 - 0.00253*c^3\<close>, bright regime
  \<open>factor = 1.00876 - 0.02540*c + 0.01747*c^2 - 0.00277*c^3\<close>.
\<close>

definition spec_faint :: "real \<Rightarrow> real" where
  "spec_faint c = 1.00525 - 0.02323 * c + 0.01740 * c ^ 2 - 0.00253 * c ^ 3"

definition spec_bright :: "real \<Rightarrow> real" where
  "spec_bright c = 1.00876 - 0.02540 * c + 0.01747 * c ^ 2 - 0.00277 * c ^ 3"

text \<open>The sign of a value, as \<^verbatim>\<open>np.sign\<close> reports it; a NaN has none.\<close>

fun fsign :: "fl \<Rightarrow> int option" where
  "fsign NaN = None"
| "fsign NInf = Some (- 1)"
| "fsign PInf = Some 1"
| "fsign (Fin x) = Some (if x < 0 then - 1 else if x = 0 then 0 else 1)"

section \<open>Auxiliary facts\<close>

subsection \<open>Conversions\<close>

lemma cast_Float64 [simp]: "cast Float64 v = v"
  by (cases v) simp_all

lemma cast_NaN_iff [simp]: "cast d v = NaN \<longleftrightarrow> v = NaN"
  by (cases v) simp_all

lemma isnan_iff: "isnan v \<longleftrightarrow> v = NaN"
  by (cases v) simp_all

subsection \<open>Boolean indexing\<close>

lemma setitem_map_getitem:
  "length xs = length ms \<Longrightarrow> length ms = length ys \<Longrightarrow>
   setitem d xs ms (map g (getitem ys ms))
     = map (\<lambda>(x, m, y). if m then cast d (g y) else x) (zip xs (zip ms ys))"
proof (induction xs ms ys rule: list_induct3)
  case Nil
  then show ?case by simp
next
  case (Cons x xs m ms y ys)
  then show ?case by (cases m) simp_all
qed

lemma nth_setitem_map_getitem:
  assumes "length xs = length ms" "length ms = length ys" "i < length ms"
  shows "setitem d xs ms (map g (getitem ys ms)) ! i
           = (if ms ! i then cast d (g (ys ! i)) else xs ! i)"
  using assms by (simp add: setitem_map_getitem)

lemma length_setitem: "length (setitem d xs ms vs) = length xs"
  by (induction d xs ms vs rule: setitem.induct) simp_all

subsection \<open>Well-formed arrays, masks and the factor array\<close>

lemma wf_np_float64: "wf_farg x \<Longrightarrow> wf_ndarray (np_float64 x)"
  by (cases x) (simp_all add: wf_ndarray_def representable_def list_all_iff)

lemma wf_as_ndarray: "wf_farg x \<Longrightarrow> wf_ndarray (as_ndarray x)"
  by (cases x) (simp_all add: wf_ndarray_def representable_def list_all_iff)

lemma wf_np_int64: "wf_iarg x \<Longrightarrow> np_int64 x = Inr A \<Longrightarrow> wf_intarray A"
  by (cases x) (auto simp: wf_intarray_def split: if_splits)

lemma wf_as_intarray: "wf_iarg x \<Longrightarrow> \<not> isscalar_int x \<Longrightarrow> wf_intarray (as_intarray x)"
  by (cases x) simp_all

lemma wf_normalize:
  assumes "wf_farg c" "wf_iarg a" "wf_farg m" "wf_farg f"
    and "normalize c a m f = Inr (C, A, M, F)"
  shows "wf_ndarray C \<and> wf_intarray A \<and> wf_ndarray M \<and> wf_ndarray F"
  using assms
  by (auto simp: normalize_def wf_np_float64 wf_as_ndarray wf_np_int64 wf_as_intarray
      split: if_splits sum.splits)

lemma data_lengths:
  assumes "wf_ndarray C" "wf_intarray A" "wf_ndarray M" "wf_ndarray F" "same_shape C A M F"
  shows "length (data C) = length (data M)" "length (idata A) = length (data M)"
    "length (data F) = length (data M)" "prod_list (shape M) = length (data M)"
  using assms by (simp_all add: wf_ndarray_def wf_intarray_def same_shape_def)

lemma length_do_not_correct:
  assumes "length (data C) = n" "length (idata A) = n" "length (data M) = n"
  shows "length (do_not_correct C A M) = n"
  using assms
  by (simp add: do_not_correct_def logical_or_def np_isnan_def le_scalar_def ne_scalar_def)

lemma length_bright_correct:
  assumes "length (data C) = n" "length (idata A) = n" "length (data M) = n"
  shows "length (bright_correct C A M) = n"
  using assms length_do_not_correct [OF assms]
  by (simp add: bright_correct_def logical_and_def logical_not_def gt_scalar_def le_scalar_def)

lemma length_faint_correct:
  assumes "length (data C) = n" "length (idata A) = n" "length (data M) = n"
  shows "length (faint_correct C A M) = n"
  using assms length_do_not_correct [OF assms]
  by (simp add: faint_correct_def logical_and_def logical_not_def gt_scalar_def)

lemma nth_do_not_correct:
  assumes "length (data C) = n" "length (idata A) = n" "length (data M) = n" "i < n"
  shows "do_not_correct C A M ! i
           = (isnan (data C ! i) \<or> fle (data M ! i) (Fin 13) \<or> idata A ! i \<noteq> 95)"
  using assms
  by (simp add: do_not_correct_def logical_or_def np_isnan_def le_scalar_def ne_scalar_def)

lemma nth_bright_correct:
  assumes "length (data C) = n" "length (idata A) = n" "length (data M) = n" "i < n"
  shows "bright_correct C A M ! i
           = (\<not> do_not_correct C A M ! i \<and> fgt (data M ! i) (Fin 13) \<and> fle (data M ! i) (Fin 16))"
  using assms length_do_not_correct [OF assms(1-3)]
  by (simp add: bright_correct_def logical_and_def logical_not_def gt_scalar_def le_scalar_def)

lemma nth_faint_correct:
  assumes "length (data C) = n" "length (idata A) = n" "length (data M) = n" "i < n"
  shows "faint_correct C A M ! i
           = (\<not> do_not_correct C A M ! i \<and> fgt (data M ! i) (Fin 16))"
  using assms length_do_not_correct [OF assms(1-3)]
  by (simp add: faint_correct_def logical_and_def logical_not_def gt_scalar_def)

lemma correction_factor_meta:
  "dtype (correction_factor C A M) = dtype M" "shape (correction_factor C A M) = shape M"
  by (simp_all add: correction_factor_def Let_def ones_like_def)

lemma length_correction_factor:
  "length (data (correction_factor C A M)) = prod_list (shape M)"
  by (simp add: correction_factor_def Let_def ones_like_def length_setitem)

lemma nth_correction_factor:
  assumes "length (data C) = n" "length (idata A) = n" "length (data M) = n"
    and "prod_list (shape M) = n" "i < n"
  shows "data (correction_factor C A M) ! i =
     (if bright_correct C A M ! i
        then cast (dtype M) (bright_factor (dtype C) (clip (data C ! i) 0.25 3))
      else if faint_correct C A M ! i
        then cast (dtype M) (faint_factor (dtype C) (clip (data C ! i) 0.25 3))
      else Fin 1)"
proof -
  let ?c = "data (bp_rp_c C)"
  let ?fc = "faint_correct C A M" and ?bc = "bright_correct C A M"
  let ?cf0 = "replicate n (Fin 1)"
  let ?cf1 = "setitem (dtype M) ?cf0 ?fc (map (faint_factor (dtype C)) (getitem ?c ?fc))"
  have lc: "length ?c = n" and nc: "?c ! i = clip (data C ! i) 0.25 3"
    using assms by (simp_all add: bp_rp_c_def np_clip_def)
  have lf: "length ?fc = n" and lb: "length ?bc = n"
    using assms by (simp_all add: length_faint_correct length_bright_correct)
  have l1: "length ?cf1 = n"
    by (simp add: length_setitem)
  have n1: "?cf1 ! i = (if ?fc ! i then cast (dtype M) (faint_factor (dtype C) (?c ! i)) else Fin 1)"
    using nth_setitem_map_getitem [of ?cf0 ?fc ?c i "dtype M" "faint_factor (dtype C)"] lf lc assms(5)
    by simp
  have "data (correction_factor C A M)
          = setitem (dtype M) ?cf1 ?bc (map (bright_factor (dtype C)) (getitem ?c ?bc))"
    using assms(4)
    by (simp add: correction_factor_def Let_def ones_like_def bp_rp_c_def np_clip_def)
  then have "data (correction_factor C A M) ! i
      = (if ?bc ! i then cast (dtype M) (bright_factor (dtype C) (?c ! i)) else ?cf1 ! i)"
    using nth_setitem_map_getitem [of ?cf1 ?bc ?c i "dtype M" "bright_factor (dtype C)"] l1 lb lc assms(5)
    by simp
  then show ?thesis
    by (simp add: n1 nc)
qed

lemma nth_gmag_corrected:
  assumes "length (data M) = n" "length (data cf) = n" "i < n"
  shows "data (gmag_corrected M cf) ! i =
     fsub (dtype M) (data M ! i)
       (fmul (dtype M) (const (dtype M) 2.5) (flog10 (dtype M) (data cf ! i)))"
  using assms by (simp add: gmag_corrected_def)

lemma nth_gflux_corrected:
  assumes "length (data F) = n" "length (data cf) = n" "i < n"
  shows "data (gflux_corrected F cf) ! i =
     fmul (promote (dtype F) (dtype cf)) (data F ! i) (data cf ! i)"
  using assms by (simp add: gflux_corrected_def)

subsection \<open>Rounding to binary32\<close>

lemma round_even_error: "\<bar>of_int (round_even y) - y\<bar> \<le> 1 / 2"
proof -
  have "of_int \<lfloor>y\<rfloor> \<le> y" "y < of_int \<lfloor>y\<rfloor> + 1" by linarith+
  then show ?thesis
    by (auto simp: round_even_def Let_def)
qed

lemma round_even_of_int: "round_even (of_int k) = k"
  by (simp add: round_even_def)

lemma rnd32_0: "rnd32 0 = 0"
  by (simp add: rnd32_def)

lemma rnd32_binade:
  assumes "2 powr of_int k \<le> \<bar>x\<bar>" "\<bar>x\<bar> < 2 powr (of_int k + 1)"
  shows "rnd32 x = of_int (round_even (x * 2 powr (23 - of_int k))) * 2 powr (of_int k - 23)"
proof -
  have "0 < (2::real) powr of_int k" by simp
  with assms have x: "0 < \<bar>x\<bar>" by linarith
  then have "\<lfloor>log 2 \<bar>x\<bar>\<rfloor> = k"
    using assms by (simp add: floor_log_eq_powr_iff)
  with x show ?thesis
    by (simp add: rnd32_def)
qed

lemma rnd32_error:
  "\<bar>rnd32 x - x\<bar> \<le> \<bar>x\<bar> / 2 ^ 24"
proof (cases "x = 0")
  case True
  then show ?thesis by (simp add: rnd32_def)
next
  case False
  define k where "k = \<lfloor>log 2 \<bar>x\<bar>\<rfloor>"
  have x: "0 < \<bar>x\<bar>" using False by simp
  have b: "2 powr of_int k \<le> \<bar>x\<bar>" "\<bar>x\<bar> < 2 powr (of_int k + 1)"
    using floor_log_eq_powr_iff [of "\<bar>x\<bar>" 2 k] x by (simp_all add: k_def)
  define y where "y = x * 2 powr (23 - of_int k)"
  have r: "rnd32 x = of_int (round_even y) * 2 powr (of_int k - 23)"
    using rnd32_binade [OF b] by (simp add: y_def)
  have xy: "x = y * 2 powr (of_int k - 23)"
    by (simp add: y_def powr_diff)
  have "rnd32 x - x = (of_int (round_even y) - y) * 2 powr (of_int k - 23)"
    by (subst (2) xy) (simp add: r algebra_simps)
  then have "\<bar>rnd32 x - x\<bar> = \<bar>of_int (round_even y) - y\<bar> * 2 powr (of_int k - 23)"
    by (simp add: abs_mult)
  also have "\<dots> \<le> (1 / 2) * 2 powr (of_int k - 23)"
    by (intro mult_right_mono round_even_error) simp
  also have "\<dots> = 2 powr of_int k / 2 ^ 24"
    by (simp add: powr_diff)
  also have "\<dots> \<le> \<bar>x\<bar> / 2 ^ 24"
    using b(1) by (simp add: divide_right_mono)
  finally show ?thesis .
qed

lemma rnd32_pos:
  assumes "0 < x"
  shows "0 < rnd32 x"
proof -
  have "- (rnd32 x - x) \<le> \<bar>rnd32 x - x\<bar>" by (rule abs_ge_minus_self)
  also have "\<dots> \<le> x / 2 ^ 24" using rnd32_error [of x] assms by simp
  finally show ?thesis using assms by simp
qed

lemma rnd32_neg:
  assumes "x < 0"
  shows "rnd32 x < 0"
proof -
  have "rnd32 x - x \<le> \<bar>rnd32 x - x\<bar>" by (rule abs_ge_self)
  also have "\<dots> \<le> - x / 2 ^ 24" using rnd32_error [of x] assms by simp
  finally show ?thesis using assms by simp
qed

lemma rnd32_bounds:
  assumes "0 \<le> x"
  shows "x * (99 / 100) \<le> rnd32 x" "rnd32 x \<le> x * (101 / 100)"
proof -
  have "\<bar>x\<bar> / 2 ^ 24 \<le> x / 100" using assms by simp
  with rnd32_error [of x] have "\<bar>rnd32 x - x\<bar> \<le> x / 100" by linarith
  then show "x * (99 / 100) \<le> rnd32 x" "rnd32 x \<le> x * (101 / 100)"
    by linarith+
qed

lemma round_even_numeral: "round_even (numeral k) = numeral k"
  using round_even_of_int [of "numeral k"] by simp

lemma rnd32_17: "rnd32 17 = 17"
  using rnd32_binade [of 4 17] by (simp add: round_even_numeral powr_minus_divide)


lemma rnd32_3_2: "rnd32 1.5 = 1.5"
  using rnd32_binade [of 0 "1.5"] round_even_of_int [of "12582912"] by (simp add: powr_minus_divide)

subsection \<open>Comparisons\<close>

lemma fle_NaN [simp]: "fle NaN v = False" "fle v NaN = False"
  by (cases v; simp)+

lemma fgt_NaN [simp]: "fgt NaN v = False" "fgt v NaN = False"
  by (cases v; simp add: fgt_def)+

lemma fgt_imp_not_fle: "fgt v (Fin k) \<Longrightarrow> \<not> fle v (Fin k)"
  by (cases v) (simp_all add: fgt_def)


subsection \<open>Clipping and the cubic polynomials\<close>

lemma clip_NaN: "clip NaN lo hi = NaN"
  by (simp add: clip_def fmaximum_def fminimum_def)

lemma clip_Fin: "clip (Fin x) lo hi = Fin (min (max x lo) hi)"
  by (simp add: clip_def fmaximum_def fminimum_def)

lemma clip_PInf: "clip PInf lo hi = Fin hi"
  by (simp add: clip_def fmaximum_def fminimum_def)

lemma clip_NInf: "clip NInf lo hi = Fin (min lo hi)"
  by (simp add: clip_def fmaximum_def fminimum_def)

lemma clip_range:
  assumes "\<not> isnan c"
  shows "\<exists>x. clip c 0.25 3 = Fin x \<and> 0.25 \<le> x \<and> x \<le> 3"
proof (cases c)
  case NInf
  have "clip NInf 0.25 3 = Fin 0.25" by (simp add: clip_NInf)
  with NInf show ?thesis by (intro exI [of _ "0.25"]) simp
qed (use assms in \<open>simp_all add: clip_Fin clip_PInf\<close>)

lemma clip_low: "fle c (Fin lo) \<Longrightarrow> lo \<le> hi \<Longrightarrow> clip c lo hi = Fin lo"
  by (cases c) (simp_all add: clip_Fin clip_NInf)

lemma clip_high: "fle (Fin hi) c \<Longrightarrow> lo \<le> hi \<Longrightarrow> clip c lo hi = Fin hi"
  by (cases c) (simp_all add: clip_Fin clip_PInf)

lemma rnd_bounds:
  assumes "0 \<le> x"
  shows "x * (99 / 100) \<le> rnd d x" "rnd d x \<le> x * (101 / 100)"
  using assms rnd32_bounds [of x] by (cases d; simp)+

lemma rnd_nonneg: "0 \<le> x \<Longrightarrow> 0 \<le> rnd d x"
  using rnd_bounds(1) [of x d] by (simp add: order_trans [rotated])

lemma rnd_pos: "0 < x \<Longrightarrow> 0 < rnd d x"
  by (cases d) (simp_all add: rnd32_pos)

lemma rnd_neg: "x < 0 \<Longrightarrow> rnd d x < 0"
  by (cases d) (simp_all add: rnd32_neg)

lemma cubic_Fin:
  "cubic d k0 k1 k2 k3 (Fin x) =
     Fin (rnd d (rnd d (rnd d (rnd d k0 - rnd d (rnd d k1 * x))
                        + rnd d (rnd d k2 * rnd d (x ^ 2)))
                 - rnd d (rnd d k3 * rnd d (x ^ 3))))"
  by (simp add: cubic_def fsub_def fadd_def fmul_def fpow_def const_def esub_def)

lemma cubic_Float64:
  "cubic Float64 k0 k1 k2 k3 (Fin x) = Fin (k0 - k1 * x + k2 * x ^ 2 - k3 * x ^ 3)"
  by (simp add: cubic_Fin)

lemma cubic_lower:
  assumes x: "0 \<le> x" "x \<le> 3"
    and k0: "1 \<le> k0"
    and k1: "0 \<le> k1" "k1 \<le> 26 / 1000"
    and k2: "0 \<le> k2"
    and k3: "0 \<le> k3" "k3 \<le> 3 / 1000"
  shows "\<exists>p. cubic d k0 k1 k2 k3 (Fin x) = Fin p \<and> 3 / 4 \<le> p"
proof -
  define K0 where "K0 = rnd d k0"
  define K1 where "K1 = rnd d k1"
  define K2 where "K2 = rnd d k2"
  define K3 where "K3 = rnd d k3"
  define t1 where "t1 = rnd d (K1 * x)"
  define s1 where "s1 = rnd d (K0 - t1)"
  define t2 where "t2 = rnd d (K2 * rnd d (x ^ 2))"
  define s2 where "s2 = rnd d (s1 + t2)"
  define p3 where "p3 = rnd d (x ^ 3)"
  define t3 where "t3 = rnd d (K3 * p3)"
  have K0: "99 / 100 \<le> K0"
    using rnd_bounds(1) [of k0 d] k0 by (simp add: K0_def)
  have K1: "0 \<le> K1" "K1 \<le> 2626 / 100000"
    using rnd_bounds [of k1 d] k1 by (simp_all add: K1_def rnd_nonneg)
  have "K1 * x \<le> (2626 / 100000) * 3"
    using K1 x by (intro mult_mono) simp_all
  moreover have "0 \<le> K1 * x" using K1 x by simp
  ultimately have t1: "0 \<le> t1" "t1 \<le> 8 / 100"
    using rnd_bounds [of "K1 * x" d] by (simp_all add: t1_def rnd_nonneg)
  have "91 / 100 \<le> K0 - t1" using K0 t1 by simp
  then have s1: "9 / 10 \<le> s1"
    using rnd_bounds(1) [of "K0 - t1" d] by (simp add: s1_def)
  have t2: "0 \<le> t2"
    using k2 by (simp add: t2_def K2_def rnd_nonneg)
  have "9 / 10 \<le> s1 + t2" using s1 t2 by simp
  then have s2: "891 / 1000 \<le> s2"
    using rnd_bounds(1) [of "s1 + t2" d] by (simp add: s2_def)
  have "x ^ 3 \<le> 3 ^ 3" using x by (intro power_mono) simp_all
  then have p3: "0 \<le> p3" "p3 \<le> 2727 / 100"
    using rnd_bounds [of "x ^ 3" d] x by (simp_all add: p3_def rnd_nonneg)
  have K3: "0 \<le> K3" "K3 \<le> 303 / 100000"
    using rnd_bounds [of k3 d] k3 by (simp_all add: K3_def rnd_nonneg)
  have "K3 * p3 \<le> (303 / 100000) * (2727 / 100)"
    using K3 p3 by (intro mult_mono) simp_all
  moreover have "0 \<le> K3 * p3" using K3 p3 by simp
  ultimately have t3: "t3 \<le> 835 / 10000"
    using rnd_bounds [of "K3 * p3" d] by (simp add: t3_def)
  have "8 / 10 \<le> s2 - t3" using s2 t3 by simp
  then have "3 / 4 \<le> rnd d (s2 - t3)"
    using rnd_bounds(1) [of "s2 - t3" d] by simp
  then show ?thesis
    by (simp add: cubic_Fin K0_def K1_def K2_def K3_def t1_def s1_def t2_def s2_def p3_def t3_def)
qed

lemma faint_factor_lower:
  assumes "0 \<le> x" "x \<le> 3"
  shows "\<exists>p. faint_factor d (Fin x) = Fin p \<and> 3 / 4 \<le> p"
  unfolding faint_factor_def using assms by (intro cubic_lower) simp_all

lemma bright_factor_lower:
  assumes "0 \<le> x" "x \<le> 3"
  shows "\<exists>p. bright_factor d (Fin x) = Fin p \<and> 3 / 4 \<le> p"
  unfolding bright_factor_def using assms by (intro cubic_lower) simp_all

subsection \<open>Rounding error of the cubic polynomials\<close>







lemma factor_Float64:
  "faint_factor Float64 (Fin x) = Fin (spec_faint x)"
  "bright_factor Float64 (Fin x) = Fin (spec_bright x)"
  by (simp_all add: faint_factor_def bright_factor_def spec_faint_def spec_bright_def cubic_Float64)


subsection \<open>Elements of the result\<close>

lemma rnd_0 [simp]: "rnd d 0 = 0"
  by (cases d) (simp_all add: rnd32_0)

lemma esub_zero [simp]: "esub v (Fin 0) = v"
  by (cases v) (simp_all add: esub_def)

lemma emul_one [simp]: "emul v (Fin 1) = v"
  by (cases v) simp_all

lemma representable_promote:
  "representable d v \<Longrightarrow> representable (promote d d') v"
  by (cases d; cases d') (simp_all add: representable_def)

text \<open>With correction factor 1 an element is returned as it is.\<close>

lemma unit_factor_mag:
  assumes "representable d v"
  shows "fsub d v (fmul d (const d k) (flog10 d (Fin 1))) = v"
  using assms by (simp add: fsub_def fmul_def const_def flog10_def representable_def)

lemma unit_factor_flux:
  assumes "representable d v"
  shows "fmul (promote d d') v (Fin 1) = v"
  using representable_promote [OF assms, of d'] by (simp add: fmul_def representable_def)

lemma wf_ndarray_nth:
  "wf_ndarray a \<Longrightarrow> i < length (data a) \<Longrightarrow> representable (dtype a) (data a ! i)"
  by (simp add: wf_ndarray_def list_all_length)

text \<open>What a successful call returns, element by element.\<close>

lemma correct_gband_Inr:
  assumes "normalize c a m f = Inr (C, A, M, F)"
    and "correct_gband c a m f = Inr (gm, gf)"
  shows "same_shape C A M F"
    and "gm = gmag_corrected M (correction_factor C A M)"
    and "gf = gflux_corrected F (correction_factor C A M)"
  using assms by (auto simp: correct_gband_def Let_def split: if_splits)

lemma correct_gband_ok:
  assumes "normalize c a m f = Inr (C, A, M, F)" and "same_shape C A M F"
  shows "correct_gband c a m f =
           Inr (gmag_corrected M (correction_factor C A M),
                gflux_corrected F (correction_factor C A M))"
  using assms by (simp add: correct_gband_def Let_def)

lemma correct_gband_nth:
  assumes wf: "wf_farg c" "wf_iarg a" "wf_farg m" "wf_farg f"
    and n: "normalize c a m f = Inr (C, A, M, F)"
    and r: "correct_gband c a m f = Inr (gm, gf)"
    and i: "i < length (data M)"
  shows "data gm ! i =
           fsub (dtype M) (data M ! i)
             (fmul (dtype M) (const (dtype M) 2.5)
                (flog10 (dtype M) (data (correction_factor C A M) ! i)))"
    and "data gf ! i =
           fmul (promote (dtype F) (dtype M)) (data F ! i)
             (data (correction_factor C A M) ! i)"
    and "data (correction_factor C A M) ! i =
     (if bright_correct C A M ! i
        then cast (dtype M) (bright_factor (dtype C) (clip (data C ! i) 0.25 3))
      else if faint_correct C A M ! i
        then cast (dtype M) (faint_factor (dtype C) (clip (data C ! i) 0.25 3))
      else Fin 1)"
    and "do_not_correct C A M ! i
           = (isnan (data C ! i) \<or> fle (data M ! i) (Fin 13) \<or> idata A ! i \<noteq> 95)"
    and "bright_correct C A M ! i
           = (\<not> do_not_correct C A M ! i \<and> fgt (data M ! i) (Fin 13) \<and> fle (data M ! i) (Fin 16))"
    and "faint_correct C A M ! i
           = (\<not> do_not_correct C A M ! i \<and> fgt (data M ! i) (Fin 16))"
    and "representable (dtype M) (data M ! i)"
    and "representable (dtype F) (data F ! i)"
    and "i < length (data C)" "i < length (idata A)" "i < length (data F)"
proof -
  note w = wf_normalize [OF wf n]
  note s = correct_gband_Inr [OF n r]
  note l = data_lengths [of C A M F] 
  have lC: "length (data C) = length (data M)" and lA: "length (idata A) = length (data M)"
    and lF: "length (data F) = length (data M)" and lS: "prod_list (shape M) = length (data M)"
    using w s(1) l by simp_all
  have lcf: "length (data (correction_factor C A M)) = length (data M)"
    by (simp add: length_correction_factor lS)
  show "data gm ! i =
           fsub (dtype M) (data M ! i)
             (fmul (dtype M) (const (dtype M) 2.5)
                (flog10 (dtype M) (data (correction_factor C A M) ! i)))"
    unfolding s(2) using nth_gmag_corrected [OF refl lcf i] .
  show "data gf ! i =
           fmul (promote (dtype F) (dtype M)) (data F ! i)
             (data (correction_factor C A M) ! i)"
    unfolding s(3) using nth_gflux_corrected [of F "length (data M)" "correction_factor C A M" i] lF lcf i
    by (simp add: correction_factor_meta)
  show "data (correction_factor C A M) ! i =
     (if bright_correct C A M ! i
        then cast (dtype M) (bright_factor (dtype C) (clip (data C ! i) 0.25 3))
      else if faint_correct C A M ! i
        then cast (dtype M) (faint_factor (dtype C) (clip (data C ! i) 0.25 3))
      else Fin 1)"
    using nth_correction_factor [OF lC lA refl lS i] .
  show "do_not_correct C A M ! i
           = (isnan (data C ! i) \<or> fle (data M ! i) (Fin 13) \<or> idata A ! i \<noteq> 95)"
    using nth_do_not_correct [OF lC lA refl i] .
  show "bright_correct C A M ! i
           = (\<not> do_not_correct C A M ! i \<and> fgt (data M ! i) (Fin 13) \<and> fle (data M ! i) (Fin 16))"
    using nth_bright_correct [OF lC lA refl i] .
  show "faint_correct C A M ! i
           = (\<not> do_not_correct C A M ! i \<and> fgt (data M ! i) (Fin 16))"
    using nth_faint_correct [OF lC lA refl i] .
  show "representable (dtype M) (data M ! i)"
    using w i by (simp add: wf_ndarray_nth)
  show "representable (dtype F) (data F ! i)"
    using w i lF by (simp add: wf_ndarray_nth)
  show "i < length (data C)" "i < length (idata A)" "i < length (data F)"
    using i lC lA lF by simp_all
qed

subsection \<open>Positive factors\<close>

lemma promote_Float64 [simp]: "promote d Float64 = Float64"
  by (cases d) simp_all

text \<open>The factor of an eligible element, whatever the two dtypes, is a positive number.\<close>

lemma stored_factor_pos:
  assumes "\<not> isnan c"
  shows "\<exists>q. cast dm (faint_factor dc (clip c 0.25 3)) = Fin q \<and> 0 < q"
    and "\<exists>q. cast dm (bright_factor dc (clip c 0.25 3)) = Fin q \<and> 0 < q"
proof -
  obtain x where x: "clip c 0.25 3 = Fin x" "0.25 \<le> x" "x \<le> 3"
    using clip_range [OF assms] by blast
  then have x0: "0 \<le> x" by simp
  obtain p where p: "faint_factor dc (Fin x) = Fin p" "3 / 4 \<le> p"
    using faint_factor_lower [OF x0 x(3)] by blast
  then have "0 < p" by simp
  then show "\<exists>q. cast dm (faint_factor dc (clip c 0.25 3)) = Fin q \<and> 0 < q"
    using x(1) p(1) by (simp add: rnd_pos)
  obtain p' where p': "bright_factor dc (Fin x) = Fin p'" "3 / 4 \<le> p'"
    using bright_factor_lower [OF x0 x(3)] by blast
  then have "0 < p'" by simp
  then show "\<exists>q. cast dm (bright_factor dc (clip c 0.25 3)) = Fin q \<and> 0 < q"
    using x(1) p'(1) by (simp add: rnd_pos)
qed

lemma fsign_scaled:
  assumes "0 < p"
  shows "fsign (fmul d v (Fin p)) = fsign v"
proof (cases v)
  case (Fin z)
  consider "z < 0" | "z = 0" | "0 < z" by linarith
  then show ?thesis
  proof cases
    case 1
    then have "z * p < 0" using assms by (simp add: mult_neg_pos)
    then have "rnd d (z * p) < 0" by (rule rnd_neg)
    with 1 Fin show ?thesis by (simp add: fmul_def)
  next
    case 2
    with Fin show ?thesis by (simp add: fmul_def)
  next
    case 3
    then have "0 < z * p" using assms by simp
    then have "0 < rnd d (z * p)" by (rule rnd_pos)
    with 3 Fin show ?thesis by (simp add: fmul_def)
  qed
qed (use assms in \<open>simp_all add: fmul_def\<close>)

lemma finite_mag:
  assumes "0 < p"
  shows "\<exists>y'. fsub d (Fin y) (fmul d (const d k) (flog10 d (Fin p))) = Fin y'"
  using assms by (simp add: fsub_def fmul_def const_def flog10_def esub_def)

subsection \<open>Dependence on the colours\<close>

text \<open>The result depends on the colours only through their NaN mask and their clipped values.\<close>

lemma correction_factor_cong:
  assumes "np_isnan X = np_isnan X'" "bp_rp_c X = bp_rp_c X'"
  shows "correction_factor X A M = correction_factor X' A M"
proof -
  have "do_not_correct X A M = do_not_correct X' A M"
    using assms(1) by (simp add: do_not_correct_def)
  then have "faint_correct X A M = faint_correct X' A M"
    "bright_correct X A M = bright_correct X' A M"
    by (simp_all add: faint_correct_def bright_correct_def)
  then show ?thesis
    using assms(2) by (simp add: correction_factor_def)
qed

lemma clip_same:
  assumes "x = y \<or> (fle x (Fin 0.25) \<and> fle y (Fin 0.25)) \<or> (fle (Fin 3) x \<and> fle (Fin 3) y)"
  shows "clip x 0.25 3 = clip y 0.25 3" and "isnan x = isnan y"
  using assms by (auto simp: clip_low clip_high isnan_iff)

lemma isnan_same:
  assumes "x = y \<or> (fle x (Fin lo) \<and> fle y (Fin lo)) \<or> (fle (Fin hi) x \<and> fle (Fin hi) y)"
  shows "isnan x = isnan y"
  using assms by (auto simp: isnan_iff)

lemma arrays_same:
  assumes "dtype X = dtype X'" "shape X = shape X'" "length (data X) = length (data X')"
    and "\<forall>i < length (data X).
           data X ! i = data X' ! i
         \<or> (fle (data X ! i) (Fin 0.25) \<and> fle (data X' ! i) (Fin 0.25))
         \<or> (fle (Fin 3) (data X ! i) \<and> fle (Fin 3) (data X' ! i))"
  shows "np_isnan X = np_isnan X'" "bp_rp_c X = bp_rp_c X'"
proof -
  show "np_isnan X = np_isnan X'"
    unfolding np_isnan_def using assms(3,4)
    by (intro nth_equalityI) (auto intro!: isnan_same)
  have "map (\<lambda>x. clip x 0.25 3) (data X) = map (\<lambda>x. clip x 0.25 3) (data X')"
    using assms(3,4) by (intro nth_equalityI) (auto simp: clip_low clip_high)
  then show "bp_rp_c X = bp_rp_c X'"
    using assms(1,2) by (simp add: bp_rp_c_def np_clip_def)
qed

lemma correct_gband_cong:
  assumes "normalize c a m f = Inr (X, A, M, F)" "normalize c' a m f = Inr (X', A, M, F)"
    and "shape X = shape X'" "np_isnan X = np_isnan X'" "bp_rp_c X = bp_rp_c X'"
  shows "correct_gband c a m f = correct_gband c' a m f"
  using assms correction_factor_cong [OF assms(4,5)]
  by (simp add: correct_gband_def same_shape_def)

subsection \<open>Bounds on the base-10 logarithm\<close>

lemma log10_power_lower:
  assumes "0 < x" "(10::real) ^ k \<le> x ^ n" "0 < n"
  shows "real k / real n \<le> log 10 x"
proof -
  have "real k = log 10 (10 ^ k)" by simp
  also have "\<dots> \<le> log 10 (x ^ n)"
    using assms by (subst log_le_cancel_iff) simp_all
  also have "\<dots> = real n * log 10 x"
    using assms(1) by (simp add: log_nat_power)
  finally show ?thesis
    using assms(3) by (simp add: field_simps)
qed

lemma log10_power_upper:
  assumes "0 < x" "x ^ n \<le> (10::real) ^ k" "0 < n"
  shows "log 10 x \<le> real k / real n"
proof -
  have "real n * log 10 x = log 10 (x ^ n)"
    using assms(1) by (simp add: log_nat_power)
  also have "\<dots> \<le> log 10 (10 ^ k)"
    using assms by (subst log_le_cancel_iff) simp_all
  also have "\<dots> = real k" by simp
  finally show ?thesis
    using assms(3) by (simp add: field_simps)
qed

lemma scenario_factor_power:
  "(10::real) ^ 42 \<le> 1.00101625 ^ 100000" "(1.00101625::real) ^ 100000 \<le> 10 ^ 46"
proof -
  let ?f = "1.00101625 :: real"
  have a: "(1.0102::real) \<le> ?f ^ 10" "?f ^ 10 \<le> (1.0103::real)"
    by (simp_all add: power_divide)
  have b: "(2.7::real) \<le> 1.0102 ^ 100" "(1.0103::real) ^ 100 \<le> 2.8"
    by (simp_all add: power_divide)
  have c: "(10::real) ^ 42 \<le> 2.7 ^ 100" "(2.8::real) ^ 100 \<le> 10 ^ 46"
    by (simp_all add: power_divide)
  have e: "?f ^ 100000 = ((?f ^ 10) ^ 100) ^ 100"
    by (simp only: power_mult [symmetric]) simp
  have "(2.7::real) ^ 100 \<le> (1.0102 ^ 100) ^ 100"
    using b(1) by (intro power_mono) simp_all
  also have "\<dots> \<le> ((?f ^ 10) ^ 100) ^ 100"
    using a(1) by (intro power_mono) simp_all
  finally show "(10::real) ^ 42 \<le> ?f ^ 100000"
    using c(1) unfolding e by linarith
  have "((?f ^ 10) ^ 100) ^ 100 \<le> ((1.0103::real) ^ 100) ^ 100"
    using a(2) by (intro power_mono) simp_all
  also have "\<dots> \<le> (2.8::real) ^ 100"
    using b(2) by (intro power_mono) simp_all
  finally show "?f ^ 100000 \<le> 10 ^ 46"
    using c(2) unfolding e by linarith
qed

lemma scenario_log_bounds:
  "42 / 100000 \<le> log 10 1.00101625" "log 10 1.00101625 \<le> 46 / 100000"
  using log10_power_lower [OF _ scenario_factor_power(1)]
    log10_power_upper [OF _ scenario_factor_power(2)]
  by simp_all

subsection \<open>Evaluation at concrete inputs\<close>

lemmas mask_defs =
  do_not_correct_def bright_correct_def faint_correct_def logical_or_def logical_and_def
  logical_not_def np_isnan_def le_scalar_def gt_scalar_def ne_scalar_def fgt_def

lemmas arith_defs =
  faint_factor_def bright_factor_def cubic_def fsub_def fadd_def fmul_def fpow_def flog10_def
  const_def esub_def

lemma scenario_masks:
  "faint_correct (np_float64 (FScalar (Fin 1.5))) \<lparr>ishape = [], idata = [95]\<rparr>
      (np_float64 (FScalar (Fin 17))) = [True]"
  "bright_correct (np_float64 (FScalar (Fin 1.5))) \<lparr>ishape = [], idata = [95]\<rparr>
      (np_float64 (FScalar (Fin 17))) = [False]"
  by (simp_all add: mask_defs)

lemma scenario_clip:
  "data (bp_rp_c (np_float64 (FScalar (Fin 1.5)))) = [Fin 1.5]"
  by (simp add: bp_rp_c_def np_clip_def clip_Fin)

lemma scenario_factor:
  "correction_factor (np_float64 (FScalar (Fin 1.5))) \<lparr>ishape = [], idata = [95]\<rparr>
      (np_float64 (FScalar (Fin 17)))
   = \<lparr>dtype = Float64, shape = [], data = [Fin 1.00101625]\<rparr>"
  by (simp add: correction_factor_def Let_def ones_like_def bp_rp_c_def np_clip_def clip_Fin
      mask_defs arith_defs power_divide)

lemma scenario_value:
  "correct_gband (FScalar (Fin 1.5)) (IScalar 95) (FScalar (Fin 17)) (FScalar (Fin 1000)) =
     Inr (\<lparr>dtype = Float64, shape = [], data = [Fin (17 - 2.5 * log 10 1.00101625)]\<rparr>,
          \<lparr>dtype = Float64, shape = [], data = [Fin 1001.01625]\<rparr>)"
proof -
  have n: "normalize (FScalar (Fin 1.5)) (IScalar 95) (FScalar (Fin 17)) (FScalar (Fin 1000))
     = Inr (np_float64 (FScalar (Fin 1.5)), \<lparr>ishape = [], idata = [95]\<rparr>,
            np_float64 (FScalar (Fin 17)), np_float64 (FScalar (Fin 1000)))"
    by (simp add: normalize_def in_int64_def)
  have "correct_gband (FScalar (Fin 1.5)) (IScalar 95) (FScalar (Fin 17)) (FScalar (Fin 1000)) =
      Inr (gmag_corrected (np_float64 (FScalar (Fin 17)))
             (correction_factor (np_float64 (FScalar (Fin 1.5))) \<lparr>ishape = [], idata = [95]\<rparr>
                (np_float64 (FScalar (Fin 17)))),
           gflux_corrected (np_float64 (FScalar (Fin 1000)))
             (correction_factor (np_float64 (FScalar (Fin 1.5))) \<lparr>ishape = [], idata = [95]\<rparr>
                (np_float64 (FScalar (Fin 17)))))"
    by (rule correct_gband_ok [OF n]) (simp add: same_shape_def)
  then show ?thesis
    unfolding scenario_factor
    by (simp add: gmag_corrected_def gflux_corrected_def arith_defs)
qed



section \<open>Shapes\<close>

lemma shape_np_float64:
  "shape (np_float64 x) = (if prod_list (arg_shape x) = 1 then [] else arg_shape x)"
  by (cases x) simp_all

lemma shape_np_float64_same: "\<not> one_element x \<Longrightarrow> shape (np_float64 x) = arg_shape x"
  by (cases x) auto

lemma shape_as_ndarray: "shape (as_ndarray x) = arg_shape x"
  by (cases x) simp_all

lemma ishape_np_int64: "np_int64 x = Inr A \<Longrightarrow> ishape A = iarg_shape x"
  by (cases x) (auto split: if_splits)

lemma ishape_as_intarray: "ishape (as_intarray x) = iarg_shape x"
  by (cases x) simp_all


lemma np_int64_error: "np_int64 x = Inl e \<Longrightarrow> e = OverflowError \<and> \<not> code_in_range x"
  by (cases x) (auto split: if_splits)


lemma normalize_error:
  "normalize c a m f = Inl e \<Longrightarrow> e = OverflowError \<and> \<not> code_in_range a"
  by (auto simp: normalize_def split: if_splits sum.splits dest: np_int64_error)

text \<open>The shapes that the shape check compares, for arguments of the two kinds above.\<close>

lemma normalize_shapes:
  assumes "normalize c a m f = Inr (C, A, M, F)"
    and "isscalar c \<or> isscalar_int a \<or> isscalar m \<or> isscalar f \<longrightarrow>
           \<not> one_element c \<and> \<not> one_element m \<and> \<not> one_element f"
  shows "shape C = arg_shape c" "ishape A = iarg_shape a" "shape M = arg_shape m"
    "shape F = arg_shape f"
  using assms
  by (auto simp: normalize_def shape_np_float64_same shape_as_ndarray ishape_np_int64
      ishape_as_intarray split: if_splits sum.splits)

lemma result_shapes:
  "shape (gmag_corrected M cf) = shape M" "shape (gflux_corrected F cf) = shape F"
  "dtype (gmag_corrected M cf) = dtype M"
  "dtype (gflux_corrected F cf) = promote (dtype F) (dtype cf)"
  by (simp_all add: gmag_corrected_def gflux_corrected_def)

lemma result_lengths:
  assumes "length (data cf) = length (data M)" "length (data F) = length (data M)"
  shows "length (data (gmag_corrected M cf)) = length (data M)"
    and "length (data (gflux_corrected F cf)) = length (data M)"
  using assms by (simp_all add: gmag_corrected_def gflux_corrected_def)




section \<open>Elements that are not corrected\<close>

text \<open>
  Claim C1 (identity on exclusion): an element whose solution code is not 95, or whose
  magnitude is at most 13, or whose colour is NaN, gets the correction factor 1 exactly,
  and its magnitude and flux are returned unchanged.
\<close>

theorem identity_on_exclusion:
  assumes "wf_farg c" "wf_iarg a" "wf_farg m" "wf_farg f"
    and "normalize c a m f = Inr (C, A, M, F)"
    and "correct_gband c a m f = Inr (gm, gf)"
    and "i < length (data M)"
    and "idata A ! i \<noteq> 95 \<or> fle (data M ! i) (Fin 13) \<or> isnan (data C ! i)"
  shows "data (correction_factor C A M) ! i = Fin 1
       \<and> data gm ! i = data M ! i
       \<and> data gf ! i = data F ! i"
proof -
  note e = correct_gband_nth [OF assms(1-7)]
  have d: "do_not_correct C A M ! i" using assms(8) e(4) by blast
  then have cf: "data (correction_factor C A M) ! i = Fin 1"
    using e(3,5,6) by simp
  show ?thesis
    using cf e(1,2,7,8) by (simp add: unit_factor_mag unit_factor_flux)
qed

theorem identity_on_exclusion_witness:
  "\<exists>gm gf. correct_gband (FScalar (Fin 1.5)) (IScalar 31) (FScalar (Fin 17)) (FScalar (Fin 1000))
              = Inr (gm, gf)
     \<and> data gm ! 0 = Fin 17 \<and> data gf ! 0 = Fin 1000"
proof -
  let ?C = "np_float64 (FScalar (Fin 1.5))" and ?A = "\<lparr>ishape = [], idata = [31]\<rparr>"
  let ?M = "np_float64 (FScalar (Fin 17))" and ?F = "np_float64 (FScalar (Fin 1000))"
  let ?cf = "correction_factor ?C ?A ?M"
  have n: "normalize (FScalar (Fin 1.5)) (IScalar 31) (FScalar (Fin 17)) (FScalar (Fin 1000))
             = Inr (?C, ?A, ?M, ?F)"
    by (simp add: normalize_def in_int64_def)
  have r: "correct_gband (FScalar (Fin 1.5)) (IScalar 31) (FScalar (Fin 17)) (FScalar (Fin 1000))
             = Inr (gmag_corrected ?M ?cf, gflux_corrected ?F ?cf)"
    by (rule correct_gband_ok [OF n]) (simp add: same_shape_def)
  have "data (gmag_corrected ?M ?cf) ! 0 = data ?M ! 0
      \<and> data (gflux_corrected ?F ?cf) ! 0 = data ?F ! 0"
    using identity_on_exclusion [OF _ _ _ _ n r, of 0] by simp
  with r show ?thesis by simp
qed

text \<open>
  Claim C5 (NaN magnitude): an element whose magnitude is NaN, whatever its colour,
  solution code and flux, is returned with a NaN magnitude; its correction factor is 1
  and its flux is returned unchanged.
\<close>

theorem nan_magnitude_propagates:
  assumes "wf_farg c" "wf_iarg a" "wf_farg m" "wf_farg f"
    and "normalize c a m f = Inr (C, A, M, F)"
    and "correct_gband c a m f = Inr (gm, gf)"
    and "i < length (data M)"
    and "data M ! i = NaN"
  shows "data gm ! i = NaN
       \<and> data (correction_factor C A M) ! i = Fin 1
       \<and> data gf ! i = data F ! i"
proof -
  note e = correct_gband_nth [OF assms(1-7)]
  have "\<not> bright_correct C A M ! i" "\<not> faint_correct C A M ! i"
    using e(5,6) assms(8) by simp_all
  then have cf: "data (correction_factor C A M) ! i = Fin 1"
    using e(3) by simp
  show ?thesis
    using cf e(1,2,7,8) assms(8) by (simp add: unit_factor_mag unit_factor_flux)
qed

theorem nan_magnitude_propagates_witness:
  "\<exists>gm gf. correct_gband (FScalar (Fin 1.5)) (IScalar 95) (FScalar NaN) (FScalar (Fin 1000))
              = Inr (gm, gf)
     \<and> data gm ! 0 = NaN \<and> data gf ! 0 = Fin 1000"
proof -
  let ?C = "np_float64 (FScalar (Fin 1.5))" and ?A = "\<lparr>ishape = [], idata = [95]\<rparr>"
  let ?M = "np_float64 (FScalar NaN)" and ?F = "np_float64 (FScalar (Fin 1000))"
  let ?cf = "correction_factor ?C ?A ?M"
  have n: "normalize (FScalar (Fin 1.5)) (IScalar 95) (FScalar NaN) (FScalar (Fin 1000))
             = Inr (?C, ?A, ?M, ?F)"
    by (simp add: normalize_def in_int64_def)
  have r: "correct_gband (FScalar (Fin 1.5)) (IScalar 95) (FScalar NaN) (FScalar (Fin 1000))
             = Inr (gmag_corrected ?M ?cf, gflux_corrected ?F ?cf)"
    by (rule correct_gband_ok [OF n]) (simp add: same_shape_def)
  have "data (gmag_corrected ?M ?cf) ! 0 = NaN
      \<and> data (gflux_corrected ?F ?cf) ! 0 = data ?F ! 0"
    using nan_magnitude_propagates [OF _ _ _ _ n r, of 0] by simp
  with r show ?thesis by simp
qed

section \<open>The two regimes\<close>



section \<open>The correction formula\<close>



section \<open>The correction factor is positive\<close>

text \<open>
  Claim C10 (positive factor): the correction factor of every element is a strictly
  positive number, so the logarithm is taken of a positive number only: a finite
  magnitude gives a finite corrected magnitude, and the corrected flux has the sign of
  the flux. Both cubic polynomials are positive on the whole clipped range
  \<open>[0.25, 3.0]\<close>.
\<close>

theorem factor_positive:
  assumes "wf_farg c" "wf_iarg a" "wf_farg m" "wf_farg f"
    and "normalize c a m f = Inr (C, A, M, F)"
    and "correct_gband c a m f = Inr (gm, gf)"
    and "i < length (data M)"
  shows "(\<exists>p. data (correction_factor C A M) ! i = Fin p \<and> 0 < p)
       \<and> (\<not> bright_correct C A M ! i \<and> \<not> faint_correct C A M ! i \<longrightarrow>
             data (correction_factor C A M) ! i = Fin 1)
       \<and> ((\<exists>y. data M ! i = Fin y) \<longrightarrow> (\<exists>y'. data gm ! i = Fin y'))
       \<and> fsign (data gf ! i) = fsign (data F ! i)
       \<and> (\<forall>x. 0.25 \<le> x \<and> x \<le> 3 \<longrightarrow> 0 < spec_faint x \<and> 0 < spec_bright x)"
proof -
  note e = correct_gband_nth [OF assms(1-7)]
  have pos: "\<exists>p. data (correction_factor C A M) ! i = Fin p \<and> 0 < p"
  proof (cases "bright_correct C A M ! i \<or> faint_correct C A M ! i")
    case True
    then have "\<not> isnan (data C ! i)" using e(4,5,6) by blast
    from stored_factor_pos [OF this, of "dtype M" "dtype C"] True show ?thesis
      using e(3) by auto
  next
    case False
    then show ?thesis using e(3) by simp
  qed
  then obtain p where p: "data (correction_factor C A M) ! i = Fin p" "0 < p" by blast
  have fin: "(\<exists>y. data M ! i = Fin y) \<longrightarrow> (\<exists>y'. data gm ! i = Fin y')"
    using e(1) p finite_mag [OF p(2)] by auto
  have sg: "fsign (data gf ! i) = fsign (data F ! i)"
    using e(2) p fsign_scaled [OF p(2)] by simp
  have poly: "0 < spec_faint x \<and> 0 < spec_bright x"
    if "0.25 \<le> x \<and> x \<le> 3" for x :: real
  proof -
    have x: "0 \<le> x" "x \<le> 3" using that by simp_all
    show ?thesis
      using faint_factor_lower [OF x, of Float64] bright_factor_lower [OF x, of Float64]
      by (simp add: factor_Float64)
  qed
  have one: "\<not> bright_correct C A M ! i \<and> \<not> faint_correct C A M ! i \<longrightarrow>
             data (correction_factor C A M) ! i = Fin 1"
    using e(3) by simp
  show ?thesis
    using pos one fin sg poly by blast
qed

theorem factor_positive_witness:
  "let C = \<lparr>dtype = Float32, shape = [1], data = [Fin 1.5]\<rparr>;
       A = \<lparr>ishape = [1], idata = [95]\<rparr>;
       M = \<lparr>dtype = Float32, shape = [1], data = [Fin 17]\<rparr>;
       F = \<lparr>dtype = Float64, shape = [1], data = [Fin (- 1000)]\<rparr>;
       cf = correction_factor C A M
   in faint_correct C A M ! 0
    \<and> (\<exists>p. data cf ! 0 = Fin p \<and> 0 < p)
    \<and> (\<exists>y. data (gmag_corrected M cf) ! 0 = Fin y)
    \<and> fsign (data (gflux_corrected F cf) ! 0) = Some (- 1)
    \<and> 0 < spec_faint 1.5 \<and> 0 < spec_bright 1.5"
proof -
  let ?C = "\<lparr>dtype = Float32, shape = [1], data = [Fin 1.5]\<rparr>"
  let ?A = "\<lparr>ishape = [1], idata = [95]\<rparr>"
  let ?M = "\<lparr>dtype = Float32, shape = [1], data = [Fin 17]\<rparr>"
  let ?F = "\<lparr>dtype = Float64, shape = [1], data = [Fin (- 1000)]\<rparr>"
  let ?cf = "correction_factor ?C ?A ?M"
  have n: "normalize (FArray ?C) (IArray ?A) (FArray ?M) (FArray ?F) = Inr (?C, ?A, ?M, ?F)"
    by (simp add: normalize_def in_int64_def)
  have r: "correct_gband (FArray ?C) (IArray ?A) (FArray ?M) (FArray ?F)
             = Inr (gmag_corrected ?M ?cf, gflux_corrected ?F ?cf)"
    by (rule correct_gband_ok [OF n]) (simp add: same_shape_def)
  have w: "wf_farg (FArray ?C)" "wf_iarg (IArray ?A)" "wf_farg (FArray ?M)" "wf_farg (FArray ?F)"
    using rnd32_3_2 rnd32_17
    by (simp_all add: wf_ndarray_def wf_intarray_def in_int64_def representable_def)
  have f: "faint_correct ?C ?A ?M ! 0"
    by (simp add: faint_correct_def do_not_correct_def logical_and_def logical_or_def
        logical_not_def np_isnan_def le_scalar_def gt_scalar_def ne_scalar_def fgt_def)
  show ?thesis
    using factor_positive [OF w n r, of 0] f by (simp add: Let_def)
qed

section \<open>Shape preservation and whole elements\<close>

lemma normalize_shape_matching:
  assumes "normalize c a m f = Inr (C, A, M, F)"
    and "arg_shape c = arg_shape m" "iarg_shape a = arg_shape m" "arg_shape f = arg_shape m"
  shows "shape M = arg_shape m"
proof (cases "isscalar c \<or> isscalar_int a \<or> isscalar m \<or> isscalar f")
  case True
  then have "arg_shape m = []"
    using assms(2-4) by (cases c; cases a; cases m; cases f) auto
  moreover have "M = np_float64 m"
    using assms(1) True by (auto simp: normalize_def split: sum.splits)
  ultimately show ?thesis by (simp add: shape_np_float64)
next
  case False
  then have "M = as_ndarray m"
    using assms(1) by (auto simp: normalize_def)
  then show ?thesis by (simp add: shape_as_ndarray)
qed

text \<open>
  Claim C9 (shape preservation, whole-element correction): both outputs have the shape
  that the four arguments have at the shape check, which for shape-matching arguments
  is the shape of the arguments. When no array with exactly one element is passed
  together with a scalar, a call that returns had arguments of one shape, and the
  outputs have it. The do-not-correct, bright and faint masks are pairwise disjoint,
  and both outputs of an element are computed from one and the same factor: the bright
  cubic, the faint cubic, or 1, in which case the element is returned unchanged.
\<close>

theorem shape_preserved_whole_element:
  assumes "wf_farg c" "wf_iarg a" "wf_farg m" "wf_farg f"
    and "normalize c a m f = Inr (C, A, M, F)"
    and "correct_gband c a m f = Inr (gm, gf)"
  shows "shape gm = shape M \<and> shape gf = shape M
       \<and> shape C = shape M \<and> ishape A = shape M \<and> shape F = shape M
       \<and> (arg_shape c = arg_shape m \<and> iarg_shape a = arg_shape m \<and> arg_shape f = arg_shape m
            \<longrightarrow> shape gm = arg_shape m \<and> shape gf = arg_shape m)
       \<and> ((isscalar c \<or> isscalar_int a \<or> isscalar m \<or> isscalar f \<longrightarrow>
              \<not> one_element c \<and> \<not> one_element m \<and> \<not> one_element f)
            \<longrightarrow> arg_shape c = arg_shape m \<and> iarg_shape a = arg_shape m
              \<and> arg_shape f = arg_shape m
              \<and> shape gm = arg_shape m \<and> shape gf = arg_shape m)
       \<and> length (data gm) = length (data M) \<and> length (data gf) = length (data M)
       \<and> (i < length (data M) \<longrightarrow>
             \<not> (do_not_correct C A M ! i \<and> bright_correct C A M ! i)
           \<and> \<not> (do_not_correct C A M ! i \<and> faint_correct C A M ! i)
           \<and> \<not> (bright_correct C A M ! i \<and> faint_correct C A M ! i)
           \<and> data gm ! i =
                fsub (dtype M) (data M ! i)
                  (fmul (dtype M) (const (dtype M) 2.5)
                     (flog10 (dtype M) (data (correction_factor C A M) ! i)))
           \<and> data gf ! i =
                fmul (promote (dtype F) (dtype M)) (data F ! i)
                  (data (correction_factor C A M) ! i)
           \<and> (bright_correct C A M ! i \<longrightarrow>
                data (correction_factor C A M) ! i =
                  cast (dtype M) (bright_factor (dtype C) (clip (data C ! i) 0.25 3)))
           \<and> (faint_correct C A M ! i \<longrightarrow>
                data (correction_factor C A M) ! i =
                  cast (dtype M) (faint_factor (dtype C) (clip (data C ! i) 0.25 3)))
           \<and> (\<not> bright_correct C A M ! i \<and> \<not> faint_correct C A M ! i \<longrightarrow>
                data (correction_factor C A M) ! i = Fin 1
              \<and> data gm ! i = data M ! i \<and> data gf ! i = data F ! i))"
proof -
  note w = wf_normalize [OF assms(1-5)]
  note s = correct_gband_Inr [OF assms(5,6)]
  have sh: "shape gm = shape M \<and> shape gf = shape M
       \<and> shape C = shape M \<and> ishape A = shape M \<and> shape F = shape M"
    using s by (simp add: result_shapes same_shape_def)
  have am: "shape gm = arg_shape m \<and> shape gf = arg_shape m"
    if "arg_shape c = arg_shape m \<and> iarg_shape a = arg_shape m \<and> arg_shape f = arg_shape m"
    using normalize_shape_matching [OF assms(5)] that sh by simp
  have ao: "arg_shape c = arg_shape m \<and> iarg_shape a = arg_shape m
              \<and> arg_shape f = arg_shape m
              \<and> shape gm = arg_shape m \<and> shape gf = arg_shape m"
    if "isscalar c \<or> isscalar_int a \<or> isscalar m \<or> isscalar f \<longrightarrow>
              \<not> one_element c \<and> \<not> one_element m \<and> \<not> one_element f"
    using normalize_shapes [OF assms(5) that] sh by simp
  have lF: "length (data F) = length (data M)" and lS: "prod_list (shape M) = length (data M)"
    using data_lengths [of C A M F] w s(1) by simp_all
  have len: "length (data gm) = length (data M) \<and> length (data gf) = length (data M)"
    unfolding s(2,3) using lF lS
    by (simp add: result_lengths length_correction_factor)
  have el: "\<not> (do_not_correct C A M ! i \<and> bright_correct C A M ! i)
           \<and> \<not> (do_not_correct C A M ! i \<and> faint_correct C A M ! i)
           \<and> \<not> (bright_correct C A M ! i \<and> faint_correct C A M ! i)
           \<and> data gm ! i =
                fsub (dtype M) (data M ! i)
                  (fmul (dtype M) (const (dtype M) 2.5)
                     (flog10 (dtype M) (data (correction_factor C A M) ! i)))
           \<and> data gf ! i =
                fmul (promote (dtype F) (dtype M)) (data F ! i)
                  (data (correction_factor C A M) ! i)
           \<and> (bright_correct C A M ! i \<longrightarrow>
                data (correction_factor C A M) ! i =
                  cast (dtype M) (bright_factor (dtype C) (clip (data C ! i) 0.25 3)))
           \<and> (faint_correct C A M ! i \<longrightarrow>
                data (correction_factor C A M) ! i =
                  cast (dtype M) (faint_factor (dtype C) (clip (data C ! i) 0.25 3)))
           \<and> (\<not> bright_correct C A M ! i \<and> \<not> faint_correct C A M ! i \<longrightarrow>
                data (correction_factor C A M) ! i = Fin 1
              \<and> data gm ! i = data M ! i \<and> data gf ! i = data F ! i)"
    if i: "i < length (data M)" for i
  proof -
    note e = correct_gband_nth [OF assms(1-6) i]
    have dj: "\<not> (bright_correct C A M ! i \<and> faint_correct C A M ! i)"
      using e(5,6) by (auto dest: fgt_imp_not_fle)
    have dn: "\<not> (do_not_correct C A M ! i \<and> bright_correct C A M ! i)"
      "\<not> (do_not_correct C A M ! i \<and> faint_correct C A M ! i)"
      using e(5,6) by simp_all
    have un: "data (correction_factor C A M) ! i = Fin 1
              \<and> data gm ! i = data M ! i \<and> data gf ! i = data F ! i"
      if "\<not> bright_correct C A M ! i \<and> \<not> faint_correct C A M ! i"
    proof -
      have cf: "data (correction_factor C A M) ! i = Fin 1" using that e(3) by simp
      then show ?thesis
        using e(1,2,7,8) by (simp add: unit_factor_mag unit_factor_flux)
    qed
    have br: "bright_correct C A M ! i \<longrightarrow>
                data (correction_factor C A M) ! i =
                  cast (dtype M) (bright_factor (dtype C) (clip (data C ! i) 0.25 3))"
      using e(3) by simp
    have fa: "faint_correct C A M ! i \<longrightarrow>
                data (correction_factor C A M) ! i =
                  cast (dtype M) (faint_factor (dtype C) (clip (data C ! i) 0.25 3))"
      using e(3) dj by auto
    show ?thesis
      using dj dn un br fa e(1,2) by blast
  qed
  show ?thesis
    using sh am ao len el by blast
qed

theorem shape_preserved_whole_element_witness:
  "let C = \<lparr>dtype = Float64, shape = [2, 2], data = [Fin 1.5, NaN, Fin 1.5, Fin 0.5]\<rparr>;
       A = \<lparr>ishape = [2, 2], idata = [95, 95, 31, 95]\<rparr>;
       M = \<lparr>dtype = Float64, shape = [2, 2], data = [Fin 17, Fin 17, Fin 17, Fin 14]\<rparr>;
       F = \<lparr>dtype = Float64, shape = [2, 2], data = [Fin 1000, Fin 500, Fin 200, Fin 100]\<rparr>;
       cf = correction_factor C A M
   in shape (gmag_corrected M cf) = [2, 2] \<and> shape (gflux_corrected F cf) = [2, 2]
    \<and> length (data (gmag_corrected M cf)) = 4 \<and> length (data (gflux_corrected F cf)) = 4
    \<and> \<not> (bright_correct C A M ! 0 \<and> faint_correct C A M ! 0)
    \<and> data (gmag_corrected M cf) ! 1 = Fin 17 \<and> data (gflux_corrected F cf) ! 1 = Fin 500"
proof -
  let ?C = "\<lparr>dtype = Float64, shape = [2, 2], data = [Fin 1.5, NaN, Fin 1.5, Fin 0.5]\<rparr>"
  let ?A = "\<lparr>ishape = [2, 2], idata = [95, 95, 31, 95]\<rparr>"
  let ?M = "\<lparr>dtype = Float64, shape = [2, 2], data = [Fin 17, Fin 17, Fin 17, Fin 14]\<rparr>"
  let ?F = "\<lparr>dtype = Float64, shape = [2, 2], data = [Fin 1000, Fin 500, Fin 200, Fin 100]\<rparr>"
  let ?cf = "correction_factor ?C ?A ?M"
  have n: "normalize (FArray ?C) (IArray ?A) (FArray ?M) (FArray ?F) = Inr (?C, ?A, ?M, ?F)"
    by (simp add: normalize_def in_int64_def)
  have r: "correct_gband (FArray ?C) (IArray ?A) (FArray ?M) (FArray ?F)
             = Inr (gmag_corrected ?M ?cf, gflux_corrected ?F ?cf)"
    by (rule correct_gband_ok [OF n]) (simp add: same_shape_def)
  have w: "wf_farg (FArray ?C)" "wf_iarg (IArray ?A)" "wf_farg (FArray ?M)" "wf_farg (FArray ?F)"
    by (simp_all add: wf_ndarray_def wf_intarray_def in_int64_def representable_def)
  have d: "do_not_correct ?C ?A ?M ! 1"
    by (simp add: do_not_correct_def logical_or_def np_isnan_def le_scalar_def ne_scalar_def)
  have m: "\<not> bright_correct ?C ?A ?M ! 1" "\<not> faint_correct ?C ?A ?M ! 1"
    using d
    by (simp_all add: bright_correct_def faint_correct_def logical_and_def logical_not_def
        do_not_correct_def logical_or_def np_isnan_def le_scalar_def ne_scalar_def gt_scalar_def)
  note t = shape_preserved_whole_element [OF w n r]
  have "\<not> (bright_correct ?C ?A ?M ! 0 \<and> faint_correct ?C ?A ?M ! 0)"
    using t [of 0] by simp
  moreover have "data (gmag_corrected ?M ?cf) ! 1 = Fin 17 \<and> data (gflux_corrected ?F ?cf) ! 1 = Fin 500"
    using t [of 1] m by (simp add: fsub_def fmul_def const_def flog10_def esub_def)
  moreover have "shape (gmag_corrected ?M ?cf) = [2, 2] \<and> shape (gflux_corrected ?F ?cf) = [2, 2]
    \<and> length (data (gmag_corrected ?M ?cf)) = 4 \<and> length (data (gflux_corrected ?F ?cf)) = 4"
    using t [of 0] by simp
  ultimately show ?thesis
    by (simp add: Let_def)
qed

section \<open>Clipping\<close>

lemma bp_rp_c_meta:
  "dtype (bp_rp_c C) = dtype C" "shape (bp_rp_c C) = shape C"
  "length (data (bp_rp_c C)) = length (data C)"
  by (simp_all add: bp_rp_c_def np_clip_def)

lemma nth_bp_rp_c:
  "i < length (data C) \<Longrightarrow> data (bp_rp_c C) ! i = clip (data C ! i) 0.25 3"
  by (simp add: bp_rp_c_def np_clip_def)

lemma clip_inside:
  "fle (Fin lo) c \<Longrightarrow> fle c (Fin hi) \<Longrightarrow> clip c lo hi = c"
  by (cases c) (simp_all add: clip_Fin)

text \<open>The elements of the clipped colour array.\<close>

lemma bp_rp_c_elements:
  assumes "i < length (data C)"
  shows "fle (data C ! i) (Fin 0.25) \<longrightarrow> data (bp_rp_c C) ! i = Fin 0.25"
    and "fle (Fin 3) (data C ! i) \<longrightarrow> data (bp_rp_c C) ! i = Fin 3"
    and "fle (Fin 0.25) (data C ! i) \<and> fle (data C ! i) (Fin 3) \<longrightarrow>
           data (bp_rp_c C) ! i = data C ! i"
    and "isnan (data C ! i) \<longrightarrow> data (bp_rp_c C) ! i = NaN"
  using assms
  by (auto simp: nth_bp_rp_c clip_low clip_high clip_inside clip_NaN isnan_iff)

text \<open>The factor array takes the colours from the clipped array only.\<close>

lemma nth_correction_factor_clipped:
  assumes "length (data C) = n" "length (idata A) = n" "length (data M) = n"
    and "prod_list (shape M) = n" "i < n"
  shows "data (correction_factor C A M) ! i =
     (if bright_correct C A M ! i
        then cast (dtype M) (bright_factor (dtype (bp_rp_c C)) (data (bp_rp_c C) ! i))
      else if faint_correct C A M ! i
        then cast (dtype M) (faint_factor (dtype (bp_rp_c C)) (data (bp_rp_c C) ! i))
      else Fin 1)"
  using nth_correction_factor [OF assms] assms(1,5)
  by (simp add: nth_bp_rp_c bp_rp_c_meta)

lemma normalize_colours:
  assumes "dtype C = dtype C'" "shape C = shape C'"
  shows "(\<exists>e. normalize (FArray C) a m f = Inl e \<and> normalize (FArray C') a m f = Inl e)
       \<or> (\<exists>X A M F. normalize (FArray C) a m f = Inr (X, A, M, F)
              \<and> normalize (FArray C') a m f = Inr (X\<lparr>data := data C'\<rparr>, A, M, F)
              \<and> data X = data C)"
  using assms by (auto simp: normalize_def split: sum.splits)

text \<open>
  Claim C6 (clipping constancy): the colour enters the computation only through its
  NaN test and through \<^verbatim>\<open>bp_rp_c\<close>, its value clipped to \<open>[0.25, 3.0]\<close>. In \<^verbatim>\<open>bp_rp_c\<close> a
  colour at most 0.25 is 0.25, a colour at least 3.0 is 3.0, a colour in between is
  itself and a NaN is a NaN, and the polynomials take the colour from \<^verbatim>\<open>bp_rp_c\<close>: the
  factor is the same for all colours at most 0.25, and the same for all colours at least
  3.0, within one regime. Two calls whose colour arrays (or colour scalars) differ only
  at places where both colours are at most 0.25, or both at least 3.0, have the same
  clipped colours and return the same result. A NaN colour raises no error.
\<close>

theorem clipping_constancy:
  assumes "dtype C = dtype C'" "shape C = shape C'" "length (data C) = length (data C')"
    and "\<forall>i < length (data C).
           data C ! i = data C' ! i
         \<or> (fle (data C ! i) (Fin 0.25) \<and> fle (data C' ! i) (Fin 0.25))
         \<or> (fle (Fin 3) (data C ! i) \<and> fle (Fin 3) (data C' ! i))"
  shows "correct_gband (FArray C) a m f = correct_gband (FArray C') a m f
       \<and> bp_rp_c C = bp_rp_c C'
       \<and> ((fle x (Fin 0.25) \<and> fle y (Fin 0.25)) \<or> (fle (Fin 3) x \<and> fle (Fin 3) y) \<longrightarrow>
            correct_gband (FScalar x) a m f = correct_gband (FScalar y) a m f)
       \<and> dtype (bp_rp_c C) = dtype C \<and> shape (bp_rp_c C) = shape C
       \<and> length (data (bp_rp_c C)) = length (data C)
       \<and> (i < length (data C) \<longrightarrow>
             (fle (data C ! i) (Fin 0.25) \<longrightarrow> data (bp_rp_c C) ! i = Fin 0.25)
           \<and> (fle (Fin 3) (data C ! i) \<longrightarrow> data (bp_rp_c C) ! i = Fin 3)
           \<and> (fle (Fin 0.25) (data C ! i) \<and> fle (data C ! i) (Fin 3) \<longrightarrow>
                 data (bp_rp_c C) ! i = data C ! i)
           \<and> (isnan (data C ! i) \<longrightarrow> data (bp_rp_c C) ! i = NaN))
       \<and> (length (data C) = length (data M) \<and> length (idata A) = length (data M)
            \<and> prod_list (shape M) = length (data M) \<and> i < length (data M) \<longrightarrow>
             data (correction_factor C A M) ! i =
               (if bright_correct C A M ! i
                  then cast (dtype M) (bright_factor (dtype (bp_rp_c C)) (data (bp_rp_c C) ! i))
                else if faint_correct C A M ! i
                  then cast (dtype M) (faint_factor (dtype (bp_rp_c C)) (data (bp_rp_c C) ! i))
                else Fin 1)
           \<and> (fle (data C ! i) (Fin 0.25) \<longrightarrow>
                 data (correction_factor C A M) ! i =
                   (if bright_correct C A M ! i
                      then cast (dtype M) (bright_factor (dtype C) (Fin 0.25))
                    else if faint_correct C A M ! i
                      then cast (dtype M) (faint_factor (dtype C) (Fin 0.25))
                    else Fin 1))
           \<and> (fle (Fin 3) (data C ! i) \<longrightarrow>
                 data (correction_factor C A M) ! i =
                   (if bright_correct C A M ! i
                      then cast (dtype M) (bright_factor (dtype C) (Fin 3))
                    else if faint_correct C A M ! i
                      then cast (dtype M) (faint_factor (dtype C) (Fin 3))
                    else Fin 1)))
       \<and> (in_int64 k \<longrightarrow>
             (\<exists>r. correct_gband (FScalar NaN) (IScalar k) (FScalar v) (FScalar w) = Inr r))"
proof -
  have same: "np_isnan C = np_isnan C'" "bp_rp_c C = bp_rp_c C'"
    using assms by (rule arrays_same)+
  have arr: "correct_gband (FArray C) a m f = correct_gband (FArray C') a m f"
    using normalize_colours [OF assms(1,2), of a m f]
  proof (elim disjE exE conjE)
    fix e
    assume "normalize (FArray C) a m f = Inl e" "normalize (FArray C') a m f = Inl e"
    then show ?thesis by (simp add: correct_gband_def)
  next
    fix X A M F
    assume n: "normalize (FArray C) a m f = Inr (X, A, M, F)"
      and n': "normalize (FArray C') a m f = Inr (X\<lparr>data := data C'\<rparr>, A, M, F)"
      and d: "data X = data C"
    let ?X' = "X\<lparr>data := data C'\<rparr>"
    have "dtype X = dtype ?X'" "shape X = shape ?X'" "length (data X) = length (data ?X')"
      using d assms(3) by simp_all
    moreover have "\<forall>i < length (data X).
           data X ! i = data ?X' ! i
         \<or> (fle (data X ! i) (Fin 0.25) \<and> fle (data ?X' ! i) (Fin 0.25))
         \<or> (fle (Fin 3) (data X ! i) \<and> fle (Fin 3) (data ?X' ! i))"
      using d assms(4) by simp
    ultimately have "np_isnan X = np_isnan ?X'" "bp_rp_c X = bp_rp_c ?X'"
      by (rule arrays_same)+
    then show ?thesis
      using correct_gband_cong [OF n n'] by simp
  qed
  have sc: "correct_gband (FScalar x) a m f = correct_gband (FScalar y) a m f"
    if h: "(fle x (Fin 0.25) \<and> fle y (Fin 0.25)) \<or> (fle (Fin 3) x \<and> fle (Fin 3) y)"
  proof (cases "np_int64 a")
    case (Inl e)
    then show ?thesis by (simp add: correct_gband_def normalize_def)
  next
    case (Inr A)
    let ?X = "np_float64 (FScalar x)" and ?Y = "np_float64 (FScalar y)"
    have nx: "normalize (FScalar x) a m f = Inr (?X, A, np_float64 m, np_float64 f)"
      and ny: "normalize (FScalar y) a m f = Inr (?Y, A, np_float64 m, np_float64 f)"
      using Inr by (simp_all add: normalize_def)
    have "np_isnan ?X = np_isnan ?Y" "bp_rp_c ?X = bp_rp_c ?Y"
      using clip_same [of x y] h by (simp_all add: np_isnan_def bp_rp_c_def np_clip_def)
    then show ?thesis
      using correct_gband_cong [OF nx ny] by simp
  qed
  have el: "(fle (data C ! i) (Fin 0.25) \<longrightarrow> data (bp_rp_c C) ! i = Fin 0.25)
           \<and> (fle (Fin 3) (data C ! i) \<longrightarrow> data (bp_rp_c C) ! i = Fin 3)
           \<and> (fle (Fin 0.25) (data C ! i) \<and> fle (data C ! i) (Fin 3) \<longrightarrow>
                 data (bp_rp_c C) ! i = data C ! i)
           \<and> (isnan (data C ! i) \<longrightarrow> data (bp_rp_c C) ! i = NaN)"
    if "i < length (data C)"
    using bp_rp_c_elements [OF that] by blast
  have fa: "data (correction_factor C A M) ! i =
               (if bright_correct C A M ! i
                  then cast (dtype M) (bright_factor (dtype (bp_rp_c C)) (data (bp_rp_c C) ! i))
                else if faint_correct C A M ! i
                  then cast (dtype M) (faint_factor (dtype (bp_rp_c C)) (data (bp_rp_c C) ! i))
                else Fin 1)
           \<and> (fle (data C ! i) (Fin 0.25) \<longrightarrow>
                 data (correction_factor C A M) ! i =
                   (if bright_correct C A M ! i
                      then cast (dtype M) (bright_factor (dtype C) (Fin 0.25))
                    else if faint_correct C A M ! i
                      then cast (dtype M) (faint_factor (dtype C) (Fin 0.25))
                    else Fin 1))
           \<and> (fle (Fin 3) (data C ! i) \<longrightarrow>
                 data (correction_factor C A M) ! i =
                   (if bright_correct C A M ! i
                      then cast (dtype M) (bright_factor (dtype C) (Fin 3))
                    else if faint_correct C A M ! i
                      then cast (dtype M) (faint_factor (dtype C) (Fin 3))
                    else Fin 1))"
    if h: "length (data C) = length (data M) \<and> length (idata A) = length (data M)
            \<and> prod_list (shape M) = length (data M) \<and> i < length (data M)"
  proof -
    have i: "i < length (data C)" using h by simp
    note g = nth_correction_factor_clipped [of C "length (data M)" A M i]
    have g': "data (correction_factor C A M) ! i =
               (if bright_correct C A M ! i
                  then cast (dtype M) (bright_factor (dtype (bp_rp_c C)) (data (bp_rp_c C) ! i))
                else if faint_correct C A M ! i
                  then cast (dtype M) (faint_factor (dtype (bp_rp_c C)) (data (bp_rp_c C) ! i))
                else Fin 1)"
      using g h by simp
    show ?thesis
      using g' bp_rp_c_elements(1,2) [OF i] by (simp add: bp_rp_c_meta)
  qed
  have nan: "\<exists>r. correct_gband (FScalar NaN) (IScalar k) (FScalar v) (FScalar w) = Inr r"
    if "in_int64 k"
    using that by (simp add: correct_gband_def normalize_def same_shape_def Let_def)
  show ?thesis
    using arr same(2) sc el fa nan bp_rp_c_meta [of C] by blast
qed

theorem clipping_constancy_witness:
  "correct_gband
      (FArray \<lparr>dtype = Float64, shape = [3], data = [Fin 0.1, Fin 5, Fin 1.5]\<rparr>)
      (IArray \<lparr>ishape = [3], idata = [95, 95, 95]\<rparr>)
      (FArray \<lparr>dtype = Float64, shape = [3], data = [Fin 17, Fin 14, Fin 17]\<rparr>)
      (FArray \<lparr>dtype = Float64, shape = [3], data = [Fin 1000, Fin 500, Fin 200]\<rparr>)
   = correct_gband
      (FArray \<lparr>dtype = Float64, shape = [3], data = [Fin (- 2), PInf, Fin 1.5]\<rparr>)
      (IArray \<lparr>ishape = [3], idata = [95, 95, 95]\<rparr>)
      (FArray \<lparr>dtype = Float64, shape = [3], data = [Fin 17, Fin 14, Fin 17]\<rparr>)
      (FArray \<lparr>dtype = Float64, shape = [3], data = [Fin 1000, Fin 500, Fin 200]\<rparr>)
   \<and> \<not> isl (correct_gband
      (FArray \<lparr>dtype = Float64, shape = [3], data = [Fin 0.1, Fin 5, Fin 1.5]\<rparr>)
      (IArray \<lparr>ishape = [3], idata = [95, 95, 95]\<rparr>)
      (FArray \<lparr>dtype = Float64, shape = [3], data = [Fin 17, Fin 14, Fin 17]\<rparr>)
      (FArray \<lparr>dtype = Float64, shape = [3], data = [Fin 1000, Fin 500, Fin 200]\<rparr>))
   \<and> data (bp_rp_c \<lparr>dtype = Float64, shape = [3], data = [Fin 0.1, Fin 5, Fin 1.5]\<rparr>) ! 0
       = Fin 0.25
   \<and> data (bp_rp_c \<lparr>dtype = Float64, shape = [3], data = [Fin 0.1, Fin 5, Fin 1.5]\<rparr>) ! 1
       = Fin 3
   \<and> data (bp_rp_c \<lparr>dtype = Float64, shape = [3], data = [Fin 0.1, Fin 5, Fin 1.5]\<rparr>) ! 2
       = Fin 1.5
   \<and> data (correction_factor \<lparr>dtype = Float64, shape = [3], data = [Fin 0.1, Fin 5, Fin 1.5]\<rparr>
        \<lparr>ishape = [3], idata = [95, 95, 95]\<rparr>
        \<lparr>dtype = Float64, shape = [3], data = [Fin 17, Fin 14, Fin 17]\<rparr>) ! 0
       = faint_factor Float64 (Fin 0.25)
   \<and> correct_gband (FScalar (Fin 0.1)) (IScalar 95) (FScalar (Fin 17)) (FScalar (Fin 1000))
     = correct_gband (FScalar NInf) (IScalar 95) (FScalar (Fin 17)) (FScalar (Fin 1000))
   \<and> (\<exists>r. correct_gband (FScalar NaN) (IScalar 95) (FScalar (Fin 17)) (FScalar (Fin 1000))
           = Inr r)"
proof -
  let ?C = "\<lparr>dtype = Float64, shape = [3], data = [Fin 0.1, Fin 5, Fin 1.5]\<rparr>"
  let ?C' = "\<lparr>dtype = Float64, shape = [3], data = [Fin (- 2), PInf, Fin 1.5]\<rparr>"
  let ?A = "\<lparr>ishape = [3], idata = [95, 95, 95]\<rparr>"
  let ?M = "\<lparr>dtype = Float64, shape = [3], data = [Fin 17, Fin 14, Fin 17]\<rparr>"
  let ?F = "\<lparr>dtype = Float64, shape = [3], data = [Fin 1000, Fin 500, Fin 200]\<rparr>"
  have h: "\<forall>i < length (data ?C).
           data ?C ! i = data ?C' ! i
         \<or> (fle (data ?C ! i) (Fin 0.25) \<and> fle (data ?C' ! i) (Fin 0.25))
         \<or> (fle (Fin 3) (data ?C ! i) \<and> fle (Fin 3) (data ?C' ! i))"
    by (simp add: less_Suc_eq numeral_3_eq_3)
  have n: "normalize (FArray ?C) (IArray ?A) (FArray ?M) (FArray ?F) = Inr (?C, ?A, ?M, ?F)"
    by (simp add: normalize_def)
  have ok: "\<not> isl (correct_gband (FArray ?C) (IArray ?A) (FArray ?M) (FArray ?F))"
    using correct_gband_ok [OF n] by (simp add: same_shape_def)
  have fc: "faint_correct ?C ?A ?M ! 0" "\<not> bright_correct ?C ?A ?M ! 0"
    by (simp_all add: mask_defs)
  have p: "dtype ?C = dtype ?C'" "shape ?C = shape ?C'" "length (data ?C) = length (data ?C')"
    by simp_all
  note t = clipping_constancy [OF p h]
  note t0 = t [of "IArray ?A" "FArray ?M" "FArray ?F" "Fin 0.1" NInf 0 ?M ?A 95 "Fin 17"
      "Fin 1000"]
  note t1 = t [of "IScalar 95" "FScalar (Fin 17)" "FScalar (Fin 1000)" "Fin 0.1" NInf 1 ?M ?A
      95 "Fin 17" "Fin 1000"]
  note t2 = t [of "IScalar 95" "FScalar (Fin 17)" "FScalar (Fin 1000)" "Fin 0.1" NInf 2 ?M ?A
      95 "Fin 17" "Fin 1000"]
  have e: "correct_gband (FArray ?C) (IArray ?A) (FArray ?M) (FArray ?F)
         = correct_gband (FArray ?C') (IArray ?A) (FArray ?M) (FArray ?F)"
    using t0 by blast
  have "0 < length (data ?C)" "fle (data ?C ! 0) (Fin 0.25)"
    by simp_all
  with t0 have b0: "data (bp_rp_c ?C) ! 0 = Fin 0.25"
    by blast
  have "1 < length (data ?C)" "fle (Fin 3) (data ?C ! 1)"
    by simp_all
  with t1 have b1: "data (bp_rp_c ?C) ! 1 = Fin 3"
    by blast
  have "2 < length (data ?C)" "fle (Fin 0.25) (data ?C ! 2) \<and> fle (data ?C ! 2) (Fin 3)"
    by simp_all
  with t2 have "data (bp_rp_c ?C) ! 2 = data ?C ! 2"
    by blast
  then have b2: "data (bp_rp_c ?C) ! 2 = Fin 1.5"
    by simp
  have "length (data ?C) = length (data ?M) \<and> length (idata ?A) = length (data ?M)
            \<and> prod_list (shape ?M) = length (data ?M) \<and> 0 < length (data ?M)"
    "fle (data ?C ! 0) (Fin 0.25)"
    by simp_all
  with t0 have "data (correction_factor ?C ?A ?M) ! 0 =
                   (if bright_correct ?C ?A ?M ! 0
                      then cast (dtype ?M) (bright_factor (dtype ?C) (Fin 0.25))
                    else if faint_correct ?C ?A ?M ! 0
                      then cast (dtype ?M) (faint_factor (dtype ?C) (Fin 0.25))
                    else Fin 1)"
    by blast
  then have f0: "data (correction_factor ?C ?A ?M) ! 0 = faint_factor Float64 (Fin 0.25)"
    using fc by simp
  have "fle (Fin 0.1) (Fin 0.25) \<and> fle NInf (Fin 0.25)"
    by simp
  with t1 have s: "correct_gband (FScalar (Fin 0.1)) (IScalar 95) (FScalar (Fin 17))
       (FScalar (Fin 1000))
     = correct_gband (FScalar NInf) (IScalar 95) (FScalar (Fin 17)) (FScalar (Fin 1000))"
    by blast
  have "in_int64 95"
    by (simp add: in_int64_def)
  with t1 have nn: "\<exists>r. correct_gband (FScalar NaN) (IScalar 95) (FScalar (Fin 17))
       (FScalar (Fin 1000)) = Inr r"
    by blast
  show ?thesis
    using e ok b0 b1 b2 f0 s nn by blast
qed

section \<open>Scalar and vector calls\<close>




section \<open>A concrete scenario\<close>

text \<open>
  Claim C8 (concrete scenario), as amended: for colour 1.5, solution code 95, magnitude
  17.0 and flux 1000.0 the call takes the faint regime with clipped colour 1.5; the
  factor is \<open>1.00525 - 0.02323 * 1.5 + 0.01740 * 2.25 - 0.00253 * 3.375\<close>, about
  \<open>1.00102\<close>, the corrected magnitude is about \<open>16.9989\<close> and the corrected flux about
  \<open>1001.02\<close>; each value is given to half a unit of its last digit.
\<close>

theorem concrete_scenario:
  "\<exists>p y z.
     faint_correct (np_float64 (FScalar (Fin 1.5))) \<lparr>ishape = [], idata = [95]\<rparr>
        (np_float64 (FScalar (Fin 17))) = [True]
   \<and> data (bp_rp_c (np_float64 (FScalar (Fin 1.5)))) = [Fin 1.5]
   \<and> data (correction_factor (np_float64 (FScalar (Fin 1.5))) \<lparr>ishape = [], idata = [95]\<rparr>
             (np_float64 (FScalar (Fin 17)))) = [Fin p]
   \<and> \<bar>p - (1.00525 - 0.02323 * 1.5 + 0.01740 * 2.25 - 0.00253 * 3.375)\<bar> \<le> 1 / 10 ^ 6
   \<and> \<bar>p - 1.00102\<bar> \<le> 0.000005
   \<and> correct_gband (FScalar (Fin 1.5)) (IScalar 95) (FScalar (Fin 17)) (FScalar (Fin 1000)) =
       Inr (\<lparr>dtype = Float64, shape = [], data = [Fin y]\<rparr>,
            \<lparr>dtype = Float64, shape = [], data = [Fin z]\<rparr>)
   \<and> \<bar>y - 16.9989\<bar> \<le> 0.00005
   \<and> \<bar>z - 1001.02\<bar> \<le> 0.005"
proof -
  have y: "\<bar>17 - 2.5 * log 10 1.00101625 - 16.9989\<bar> \<le> (0.00005 :: real)"
    using scenario_log_bounds by (intro abs_leI) (simp; linarith?)+
  have p: "\<bar>1.00101625 - (1.00525 - 0.02323 * 1.5 + 0.01740 * 2.25 - 0.00253 * 3.375)\<bar>
             \<le> (1 / 10 ^ 6 :: real)"
    "\<bar>1.00101625 - 1.00102\<bar> \<le> (0.000005 :: real)"
    by simp_all
  have z: "\<bar>1001.01625 - 1001.02\<bar> \<le> (0.005 :: real)"
    by simp
  show ?thesis
    using scenario_masks(1) scenario_clip scenario_factor scenario_value y p z
    by (intro exI [of _ "1.00101625"] exI [of _ "17 - 2.5 * log 10 1.00101625"]
        exI [of _ "1001.01625"]) simp
qed

text \<open>
  The values of the scenario as first stated (factor about \<open>0.98088\<close>, corrected
  magnitude about \<open>17.0209\<close>, corrected flux about \<open>980.88\<close>) are not what the
  function returns: each is off by more than \<open>0.02\<close>, the flux by more than \<open>20\<close>.
\<close>

theorem concrete_scenario_counterexample:
  "correct_gband (FScalar (Fin 1.5)) (IScalar 95) (FScalar (Fin 17)) (FScalar (Fin 1000)) =
     Inr (\<lparr>dtype = Float64, shape = [], data = [Fin (17 - 2.5 * log 10 1.00101625)]\<rparr>,
          \<lparr>dtype = Float64, shape = [], data = [Fin 1001.01625]\<rparr>)
   \<and> data (correction_factor (np_float64 (FScalar (Fin 1.5))) \<lparr>ishape = [], idata = [95]\<rparr>
             (np_float64 (FScalar (Fin 17)))) = [Fin 1.00101625]
   \<and> 0.02 < (1.00101625 :: real) - 0.98088
   \<and> 0.02 < 17.0209 - (17 - 2.5 * log 10 1.00101625)
   \<and> 20 < (1001.01625 :: real) - 980.88"
proof -
  have "0.02 < 17.0209 - (17 - 2.5 * log 10 1.00101625)"
    using scenario_log_bounds(1) by (simp; linarith?)
  then show ?thesis
    using scenario_value scenario_factor by simp
qed

end
